theory Spec2Isabelle
  imports Main "HOL-Library.Word"
begin

section \<open>Configuration (embedded\_postgres.go, lines 26--136)\<close>

text \<open>
  \<^verbatim>\<open>type PostgresVersion string\<close>; \<^verbatim>\<open>time.Duration\<close> is an \<^verbatim>\<open>int64\<close> count of
  nanoseconds; the port is a \<^verbatim>\<open>uint32\<close>.
\<close>

type_synonym PostgresVersion = string
type_synonym Duration = "64 word"

record Config =
  version :: PostgresVersion
  port :: "32 word"
  database :: string
  username :: string
  password :: string
  runtimePath :: string
  startTimeout :: Duration
  stopTimeout :: Duration

definition Second :: Duration where
  "Second = 1000000000"

definition V12_1_0 :: PostgresVersion where
  "V12_1_0 = ''12.1.0''"

text \<open>\<^verbatim>\<open>DefaultConfig\<close> leaves \<^verbatim>\<open>runtimePath\<close> at the zero value of \<^verbatim>\<open>string\<close>.\<close>

definition DefaultConfig :: Config where
  "DefaultConfig =
     \<lparr> version = V12_1_0,
       port = 5432,
       database = ''postgres'',
       username = ''postgres'',
       password = ''postgres'',
       runtimePath = '''',
       startTimeout = 15 * Second,
       stopTimeout = 5 * Second \<rparr>"

text \<open>
  The builders have value receivers: \<^verbatim>\<open>func (c Config) Version(...) Config\<close> assigns
  to its own copy \<^verbatim>\<open>c\<close> and returns it.
\<close>

definition Version :: "Config \<Rightarrow> PostgresVersion \<Rightarrow> Config" where
  "Version c v = c\<lparr>version := v\<rparr>"

definition Port :: "Config \<Rightarrow> 32 word \<Rightarrow> Config" where
  "Port c p = c\<lparr>port := p\<rparr>"

definition Database :: "Config \<Rightarrow> string \<Rightarrow> Config" where
  "Database c d = c\<lparr>database := d\<rparr>"

definition Username :: "Config \<Rightarrow> string \<Rightarrow> Config" where
  "Username c u = c\<lparr>username := u\<rparr>"

definition Password :: "Config \<Rightarrow> string \<Rightarrow> Config" where
  "Password c p = c\<lparr>password := p\<rparr>"

definition RuntimePath :: "Config \<Rightarrow> string \<Rightarrow> Config" where
  "RuntimePath c p = c\<lparr>runtimePath := p\<rparr>"

definition StartTimeout :: "Config \<Rightarrow> Duration \<Rightarrow> Config" where
  "StartTimeout c t = c\<lparr>startTimeout := t\<rparr>"

definition StopTimeout :: "Config \<Rightarrow> Duration \<Rightarrow> Config" where
  "StopTimeout c t = c\<lparr>stopTimeout := t\<rparr>"

section \<open>Values shared by all operations\<close>

subsection \<open>Errors, panics and results\<close>

text \<open>
  A Go \<^verbatim>\<open>error\<close> is a value of this type; the \<^verbatim>\<open>nil\<close> error is \<open>None\<close> of
  \<open>error option\<close>. \<open>PathError op path err\<close> is \<^verbatim>\<open>*os.PathError\<close>, \<open>ErrorString\<close> what
  \<^verbatim>\<open>errors.New\<close> and \<^verbatim>\<open>fmt.Errorf\<close> build.
\<close>

datatype errno =
    EACCES | EADDRINUSE | EBADF | EEXIST | EFAULT | EINVAL | EIO | ELOOP | ENAMETOOLONG
  | ENOENT | ENOMEM | ENOTDIR | ENOTEMPTY | EOVERFLOW | EPERM | ESRCH

datatype error =
    EOF
  | ErrExist
  | Errno errno
  | PathError string string error
  | ErrorString string

datatype panic =
    NilDereference
  | SendOnClosedChannel
  | CloseOfClosedChannel
  | CloseOfNilChannel
  | PanicError error

text \<open>
  What a call does: it returns a value, panics, or ends the program through
  \<^verbatim>\<open>log.Fatal\<close> (which calls \<^verbatim>\<open>os.Exit(1)\<close>).
\<close>

datatype 'a result = Value 'a | Panic panic | Fatal

fun errno_text :: "errno \<Rightarrow> string" where
  "errno_text EACCES = ''permission denied''"
| "errno_text EADDRINUSE = ''address already in use''"
| "errno_text EBADF = ''bad file descriptor''"
| "errno_text EEXIST = ''file exists''"
| "errno_text EFAULT = ''bad address''"
| "errno_text EINVAL = ''invalid argument''"
| "errno_text EIO = ''input/output error''"
| "errno_text ELOOP = ''too many levels of symbolic links''"
| "errno_text ENAMETOOLONG = ''file name too long''"
| "errno_text ENOENT = ''no such file or directory''"
| "errno_text ENOMEM = ''cannot allocate memory''"
| "errno_text ENOTDIR = ''not a directory''"
| "errno_text ENOTEMPTY = ''directory not empty''"
| "errno_text EOVERFLOW = ''value too large for defined data type''"
| "errno_text EPERM = ''operation not permitted''"
| "errno_text ESRCH = ''no such process''"

fun error_Error :: "error \<Rightarrow> string" where
  "error_Error EOF = ''EOF''"
| "error_Error ErrExist = ''file already exists''"
| "error_Error (Errno e) = errno_text e"
| "error_Error (PathError opn path err) = opn @ '' '' @ path @ '': '' @ error_Error err"
| "error_Error (ErrorString s) = s"

text \<open>
  \<^verbatim>\<open>os.IsExist\<close>: the error, taken out of a \<^verbatim>\<open>*PathError\<close> if it is one, is
  \<^verbatim>\<open>os.ErrExist\<close>, \<^verbatim>\<open>EEXIST\<close> or \<^verbatim>\<open>ENOTEMPTY\<close>.
\<close>

fun underlyingError :: "error \<Rightarrow> error" where
  "underlyingError (PathError opn path err) = err"
| "underlyingError err = err"

definition os_IsExist :: "error \<Rightarrow> bool" where
  "os_IsExist err =
     (let e = underlyingError err
      in e = ErrExist \<or> e = Errno EEXIST \<or> e = Errno ENOTEMPTY)"

text \<open>\<^verbatim>\<open>errors.Is(err, io.EOF)\<close> on the errors of this model.\<close>

definition is_EOF :: "error \<Rightarrow> bool" where
  "is_EOF err = (err = EOF)"

subsection \<open>Strings and paths\<close>

text \<open>The verb \<^verbatim>\<open>%d\<close> of \<^verbatim>\<open>fmt\<close> on an unsigned integer.\<close>

fun string_of_nat :: "nat \<Rightarrow> string" where
  "string_of_nat n =
     (if n < 10 then [char_of (48 + n)]
      else string_of_nat (n div 10) @ [char_of (48 + n mod 10)])"

declare string_of_nat.simps [simp del]

definition HasSuffix :: "string \<Rightarrow> string \<Rightarrow> bool" where
  "HasSuffix s suffix =
     (length suffix \<le> length s \<and> drop (length s - length suffix) s = suffix)"

fun strings_Join :: "string list \<Rightarrow> string \<Rightarrow> string" where
  "strings_Join [] sep = []"
| "strings_Join [e] sep = e"
| "strings_Join (e # es) sep = e @ sep @ strings_Join es sep"

text \<open>
  \<^verbatim>\<open>path/filepath\<close> on a system whose separator is \<^verbatim>\<open>/\<close>. \<^verbatim>\<open>Clean\<close> works on the
  elements between separators: empty elements and \<^verbatim>\<open>.\<close> go, \<^verbatim>\<open>..\<close> takes the
  element before it away, is dropped at the root, and is kept at the start of a
  relative path.
\<close>

fun split_path :: "string \<Rightarrow> string list" where
  "split_path [] = [[]]"
| "split_path (c # cs) =
     (if c = CHR ''/'' then [] # split_path cs
      else (case split_path cs of [] \<Rightarrow> [[c]] | e # es \<Rightarrow> (c # e) # es))"

definition clean_step :: "bool \<Rightarrow> string list \<Rightarrow> string \<Rightarrow> string list" where
  "clean_step rooted out e =
     (if e = [] \<or> e = ''.'' then out
      else if e = ''..'' then
        (if out \<noteq> [] \<and> last out \<noteq> ''..'' then butlast out
         else if rooted then out
         else out @ [e])
      else out @ [e])"

definition filepath_Clean :: "string \<Rightarrow> string" where
  "filepath_Clean path =
     (if path = [] then ''.''
      else
        let rooted = (hd path = CHR ''/'');
            out = foldl (clean_step rooted) [] (split_path path)
        in if rooted then CHR ''/'' # strings_Join out ''/''
           else if out = [] then ''.''
           else strings_Join out ''/'')"

definition filepath_Join :: "string list \<Rightarrow> string" where
  "filepath_Join elem =
     (case dropWhile (\<lambda>e. e = []) elem of
        [] \<Rightarrow> []
      | e # es \<Rightarrow> filepath_Clean (strings_Join (e # es) ''/''))"

definition filepath_Dir :: "string \<Rightarrow> string" where
  "filepath_Dir path = filepath_Clean (rev (dropWhile (\<lambda>c. c \<noteq> CHR ''/'') (rev path)))"

subsection \<open>The world outside the program\<close>

text \<open>
  Every call that leaves the program is answered by the environment of the run, and
  every call with an effect is recorded as an event. File contents are byte strings.
\<close>

type_synonym bytes = string

datatype FileInfo = FileInfo (IsDir: bool)

datatype header = ZipFileHeader (Name: string) | OtherHeader

text \<open>An entry handed out by \<^verbatim>\<open>zipFile.Read()\<close>: its header and what reading it gives.\<close>

datatype File = File (Header: header) (ReadAll: "error + bytes")

text \<open>
  \<^verbatim>\<open>*http.Response\<close>: what \<^verbatim>\<open>ioutil.ReadAll(resp.Body)\<close> gives, what
  \<^verbatim>\<open>resp.Body.Close()\<close> returns, and \<^verbatim>\<open>ContentLength\<close>.
\<close>

datatype Response =
  Response (Body_ReadAll: "error + bytes") (Body_Close: "error option") (ContentLength: "64 word")

datatype signal = SIGQUIT

datatype event =
    EvListen string string
  | EvConnClose
  | EvCacheLocator
  | EvRemoteFetch "event list"
  | EvHttpGet string
  | EvBodyClose
  | EvZipOpen
  | EvZipClose
  | EvMkdirAll string nat
  | EvCreate string
  | EvFileClose string
  | EvWriteFile string bytes nat
  | EvRemoveAll string
  | EvUnarchive string string
  | EvRun string "string list"
  | EvStart nat string "string list"
  | EvSignal nat signal
  | EvWait nat
  | EvLog string
  | EvSend "nat option" bool
  | EvClose "nat option"

datatype race = Ready | TimedOut

record os_env =
  runtime_GOOS :: string
  runtime_GOARCH :: string
  net_Listen :: "string \<Rightarrow> string \<Rightarrow> error option"
  conn_Close :: "error option"
  os_UserHomeDir :: "error + string"
  os_Stat :: "string \<Rightarrow> error + FileInfo"
  http_Get :: "string \<Rightarrow> Response option \<times> error option"
  zip_Open :: "bytes \<Rightarrow> 64 word \<Rightarrow> error + (error + File) list"
  zip_Close :: "error option"
  os_MkdirAll :: "string \<Rightarrow> nat \<Rightarrow> error option"
  os_Create :: "string \<Rightarrow> error option"
  file_Close :: "string \<Rightarrow> error option"
  ioutil_WriteFile :: "string \<Rightarrow> bytes \<Rightarrow> nat \<Rightarrow> error option"
  os_RemoveAll :: "string \<Rightarrow> error option"
  Unarchive :: "string \<Rightarrow> string \<Rightarrow> error option"
  Cmd_Run :: "string \<Rightarrow> string list \<Rightarrow> error option"
  Cmd_Start :: "string \<Rightarrow> string list \<Rightarrow> error option"
  Cmd_Wait :: "error option"
  readiness :: race

section \<open>Cache locator (lines 138--168)\<close>

type_synonym VersionStrategy = "os_env \<Rightarrow> string \<times> string \<times> PostgresVersion"
type_synonym CacheLocator = "os_env \<Rightarrow> (string \<times> bool) result"

definition defaultVersionStrategy :: "Config \<Rightarrow> VersionStrategy" where
  "defaultVersionStrategy config = (\<lambda>env. (runtime_GOOS env, runtime_GOARCH env, version config))"

text \<open>
  In the branch of a failed \<^verbatim>\<open>os.Stat\<close> the variable \<^verbatim>\<open>info\<close> is the nil interface:
  \<^verbatim>\<open>info.IsDir()\<close> is a nil dereference there, reached only when
  \<^verbatim>\<open>os.IsExist(err)\<close> holds, since \<^verbatim>\<open>&&\<close> evaluates its right side only then.
\<close>

definition defaultCacheLocator :: "VersionStrategy \<Rightarrow> CacheLocator" where
  "defaultCacheLocator versionStrategy = (\<lambda>env.
     let cacheDirectory =
           (case os_UserHomeDir env of
              Inl err \<Rightarrow> ''.embedded-postgres-go''
            | Inr userHome \<Rightarrow> filepath_Join [userHome, ''.embedded-postgres-go''])
     in (case versionStrategy env of (operatingSystem, architecture, version') \<Rightarrow>
     (let cacheLocation = filepath_Join [cacheDirectory,
           ''embedded-postgres-binaries-'' @ operatingSystem @ ''-'' @ architecture @ ''-''
             @ version' @ ''.txz'']
      in (case os_Stat env cacheLocation of
            Inl err \<Rightarrow>
              (if os_IsExist err then Panic NilDereference
               else Value (cacheLocation, False))
          | Inr info \<Rightarrow> Value (cacheLocation, \<not> IsDir info)))))"

section \<open>Remote fetch strategy (lines 359--437)\<close>

text \<open>A call with effects: the events it caused, in order, and how it ended.\<close>

type_synonym 'a io = "event list \<times> 'a result"
type_synonym RemoteFetchStrategy = "os_env \<Rightarrow> (error option) io"

text \<open>
  \<^verbatim>\<open>createArchiveFile\<close>. When \<^verbatim>\<open>os.Create\<close> fails the file is the nil
  \<^verbatim>\<open>*os.File\<close>, whose \<^verbatim>\<open>Close\<close> returns \<^verbatim>\<open>os.ErrInvalid\<close> without touching a file;
  the deferred function logs it.
\<close>

definition ErrInvalid :: error where
  "ErrInvalid = ErrorString ''invalid argument''"

definition createArchiveFile :: "os_env \<Rightarrow> string \<Rightarrow> bytes \<Rightarrow> event list \<times> error option" where
  "createArchiveFile env archiveLocation archiveBytes =
     (case os_MkdirAll env (filepath_Dir archiveLocation) 493 of
        Some err \<Rightarrow> ([EvMkdirAll (filepath_Dir archiveLocation) 493], Some err)
      | None \<Rightarrow>
          (case os_Create env archiveLocation of
             Some err \<Rightarrow>
               ([EvMkdirAll (filepath_Dir archiveLocation) 493, EvCreate archiveLocation,
                 EvLog archiveLocation, EvLog (error_Error ErrInvalid)],
                Some err)
           | None \<Rightarrow>
               (let written = ioutil_WriteFile env archiveLocation archiveBytes 438;
                    closing =
                      (case file_Close env archiveLocation of
                         None \<Rightarrow> [EvLog archiveLocation, EvFileClose archiveLocation]
                       | Some err \<Rightarrow>
                           [EvLog archiveLocation, EvFileClose archiveLocation,
                            EvLog (error_Error err)])
                in ([EvMkdirAll (filepath_Dir archiveLocation) 493, EvCreate archiveLocation,
                     EvWriteFile archiveLocation archiveBytes 438] @ closing,
                    written))))"

text \<open>
  The \<^verbatim>\<open>for\<close> loop of lines 393--413 over the results of the successive
  \<^verbatim>\<open>zipFile.Read()\<close> calls; after the last one \<^verbatim>\<open>Read\<close> returns \<^verbatim>\<open>io.EOF\<close>.
\<close>

fun fetch_loop :: "CacheLocator \<Rightarrow> os_env \<Rightarrow> (error + File) list \<Rightarrow> (error option) io" where
  "fetch_loop cacheLocator env [] = ([], Value None)"
| "fetch_loop cacheLocator env (Inl err # reads) =
     (if is_EOF err then ([], Value None) else ([], Value (Some err)))"
| "fetch_loop cacheLocator env (Inr downloadedArchive # reads) =
     (case Header downloadedArchive of
        OtherHeader \<Rightarrow> fetch_loop cacheLocator env reads
      | ZipFileHeader name \<Rightarrow>
          (if \<not> HasSuffix name ''.txz'' then fetch_loop cacheLocator env reads
           else
             (case ReadAll downloadedArchive of
                Inl err \<Rightarrow> ([], Value (Some err))
              | Inr downloadedArchiveBytes \<Rightarrow>
                  (case cacheLocator env of
                     Panic p \<Rightarrow> ([], Panic p)
                   | Fatal \<Rightarrow> ([], Fatal)
                   | Value (cacheLocation, exists) \<Rightarrow>
                       (case createArchiveFile env cacheLocation downloadedArchiveBytes of
                          (evs, Some err) \<Rightarrow> (evs, Value (Some err))
                        | (evs, None) \<Rightarrow>
                            (case fetch_loop cacheLocator env reads of
                               (evs', r) \<Rightarrow> (evs @ evs', r)))))))"

text \<open>
  The two deferred functions. The one of lines 372--376 is registered before
  \<^verbatim>\<open>err\<close> is looked at: with a nil \<^verbatim>\<open>resp\<close> it is a nil dereference. A failing
  close ends the program through \<^verbatim>\<open>log.Fatal\<close>; the first one closes the body a second
  time to print the result.
\<close>

definition deferred_Body_Close :: "Response option \<Rightarrow> (error option) io \<Rightarrow> (error option) io" where
  "deferred_Body_Close resp m =
     (case m of
        (evs, Fatal) \<Rightarrow> (evs, Fatal)
      | (evs, r) \<Rightarrow>
          (case resp of
             None \<Rightarrow> (evs, Panic NilDereference)
           | Some rp \<Rightarrow>
               (case Body_Close rp of
                  None \<Rightarrow> (evs @ [EvBodyClose], r)
                | Some err \<Rightarrow>
                    (evs @ [EvBodyClose, EvBodyClose, EvLog (error_Error err)], Fatal))))"

definition deferred_zipFile_Close :: "os_env \<Rightarrow> (error option) io \<Rightarrow> (error option) io" where
  "deferred_zipFile_Close env m =
     (case m of
        (evs, Fatal) \<Rightarrow> (evs, Fatal)
      | (evs, r) \<Rightarrow>
          (case zip_Close env of
             None \<Rightarrow> (evs @ [EvZipClose], r)
           | Some err \<Rightarrow> (evs @ [EvZipClose, EvLog (error_Error err)], Fatal)))"

definition defaultRemoteFetchStrategy :: "VersionStrategy \<Rightarrow> CacheLocator \<Rightarrow> RemoteFetchStrategy" where
  "defaultRemoteFetchStrategy versionStrategy cacheLocator = (\<lambda>env.
     (case versionStrategy env of (operatingSystem, architecture, version') \<Rightarrow>
     (let downloadUrl =
            ''https://repo1.maven.org/maven2/io/zonky/test/postgres/embedded-postgres-binaries-''
              @ operatingSystem @ ''-'' @ architecture @ ''/'' @ version'
              @ ''/embedded-postgres-binaries-'' @ operatingSystem @ ''-'' @ architecture
              @ ''-'' @ version' @ ''.jar''
      in (case http_Get env downloadUrl of (resp, err) \<Rightarrow>
           deferred_Body_Close resp
             (case err of
                Some e \<Rightarrow> ([EvHttpGet downloadUrl], Value (Some e))
              | None \<Rightarrow>
                  (case resp of
                     None \<Rightarrow> ([EvHttpGet downloadUrl], Panic NilDereference)
                   | Some rp \<Rightarrow>
                       (case Body_ReadAll rp of
                          Inl e \<Rightarrow> ([EvHttpGet downloadUrl], Value (Some e))
                        | Inr bodyBytes \<Rightarrow>
                            (case zip_Open env bodyBytes (ContentLength rp) of
                               Inl e \<Rightarrow> ([EvHttpGet downloadUrl, EvZipOpen], Value (Some e))
                             | Inr reads \<Rightarrow>
                                 deferred_zipFile_Close env
                                   (case fetch_loop cacheLocator env reads of
                                      (evs, r) \<Rightarrow>
                                        (EvHttpGet downloadUrl # EvZipOpen # evs, r))))))))))"

section \<open>The coordinator (lines 170--241)\<close>

text \<open>
  Channels live in a heap and are named by their address; a field of type
  \<^verbatim>\<open>chan bool\<close> holds an address or is nil.
\<close>

type_synonym addr = nat

record EmbeddedPostgres =
  config :: Config
  cacheLocator :: CacheLocator
  remoteFetchStrategy :: RemoteFetchStrategy
  shutdownHook :: "addr option"
  startupHook :: "addr option"

definition userLocationOrDefault :: "string \<Rightarrow> string \<Rightarrow> string" where
  "userLocationOrDefault userLocation cacheLocation =
     (if userLocation \<noteq> [] then userLocation
      else filepath_Join [filepath_Dir cacheLocation, ''extracted''])"

text \<open>
  The idiom \<^verbatim>\<open>if err := f(); err != nil { return wrap(err) }\<close>: the call's events, its
  answer, the error returned on failure, and the rest of the function.
\<close>

definition check :: "event list \<Rightarrow> error option \<Rightarrow> (error \<Rightarrow> error) \<Rightarrow> (error + 'a) io \<Rightarrow> (error + 'a) io" where
  "check evs answer wrap rest =
     (case answer of
        Some err \<Rightarrow> (evs, Value (Inl (wrap err)))
      | None \<Rightarrow> (case rest of (evs', r) \<Rightarrow> (evs @ evs', r)))"

text \<open>
  Lines 199--235 of \<^verbatim>\<open>Start\<close>, everything before the supervisor is spawned:
  \<open>Value (Inl err)\<close> is \<^verbatim>\<open>return err\<close>, \<open>Value (Inr binaryExtractLocation)\<close> reaches
  line 236.
\<close>

definition Start_prepare :: "EmbeddedPostgres \<Rightarrow> os_env \<Rightarrow> (error + string) io" where
  "Start_prepare ep env =
     (let port' = string_of_nat (unat (port (config ep)))
      in
      check [EvListen ''tcp'' (''localhost:'' @ port')]
        (net_Listen env ''tcp'' (''localhost:'' @ port'))
        (\<lambda>err. ErrorString (''process already listening on port '' @ port'))
     (check [EvConnClose] (conn_Close env) (\<lambda>err. err)
     (case cacheLocator ep env of
        Panic p \<Rightarrow> ([EvCacheLocator], Panic p)
      | Fatal \<Rightarrow> ([EvCacheLocator], Fatal)
      | Value (cacheLocation, exists) \<Rightarrow>
          (case (if \<not> exists
                 then (case remoteFetchStrategy ep env of (evs, r) \<Rightarrow> ([EvRemoteFetch evs], r))
                 else ([], Value None)) of
             (evs, Panic p) \<Rightarrow> (EvCacheLocator # evs, Panic p)
           | (evs, Fatal) \<Rightarrow> (EvCacheLocator # evs, Fatal)
           | (evs, Value fetched) \<Rightarrow>
     check (EvCacheLocator # evs) fetched (\<lambda>err. err)
     (let binaryExtractLocation =
            userLocationOrDefault (runtimePath (config ep)) cacheLocation;
          pwfileLocation = filepath_Join [binaryExtractLocation, ''pwfile''];
          postgresInitDbBinary = filepath_Join [binaryExtractLocation, ''bin/initdb''];
          args = [''-A'', ''password'',
                  ''-U'', username (config ep),
                  ''-D'', filepath_Join [binaryExtractLocation, ''data''],
                  ''--pwfile='' @ pwfileLocation]
      in
     check [EvRemoveAll binaryExtractLocation] (os_RemoveAll env binaryExtractLocation)
        (\<lambda>err. ErrorString (''unable to clean up directory '' @ binaryExtractLocation
                  @ '' with error: '' @ error_Error err))
     (check [EvUnarchive cacheLocation binaryExtractLocation]
        (Unarchive env cacheLocation binaryExtractLocation)
        (\<lambda>err. ErrorString (''unable to extract postgres archive '' @ cacheLocation @ '' to ''
                  @ binaryExtractLocation @ '' with error: '' @ error_Error err))
     (check [EvWriteFile pwfileLocation (password (config ep)) 384]
        (ioutil_WriteFile env pwfileLocation (password (config ep)) 384)
        (\<lambda>err. ErrorString (''unable to write password file with error: '' @ error_Error err))
     (check [EvRun postgresInitDbBinary args] (Cmd_Run env postgresInitDbBinary args)
        (\<lambda>err. ErrorString (''unable to init database with error: '' @ error_Error err))
     ([], Value (Inr binaryExtractLocation))))))))))"

section \<open>Channels, processes and goroutines (lines 236--324)\<close>

subsection \<open>Channels\<close>

record chan =
  buf :: "bool list"
  cap :: nat
  closed :: bool

text \<open>
  What a channel operation does when it is tried: it cannot proceed yet, it panics,
  or it takes effect.
\<close>

datatype 'a attempt = Blocked | Raised panic | Done 'a

definition make_chan :: "nat \<Rightarrow> chan list \<Rightarrow> addr \<times> chan list" where
  "make_chan n h = (length h, h @ [\<lparr>buf = [], cap = n, closed = False\<rparr>])"

text \<open>
  A nil channel blocks senders and receivers forever; sending on a closed channel
  panics; a buffered send needs room. (An address outside the heap does not arise; it
  is treated like nil.)
\<close>

definition chan_send :: "chan list \<Rightarrow> addr option \<Rightarrow> bool \<Rightarrow> (chan list) attempt" where
  "chan_send h c v =
     (case c of
        None \<Rightarrow> Blocked
      | Some a \<Rightarrow>
          (if \<not> a < length h then Blocked
           else if closed (h ! a) then Raised SendOnClosedChannel
           else if length (buf (h ! a)) < cap (h ! a)
             then Done (h[a := (h ! a)\<lparr>buf := buf (h ! a) @ [v]\<rparr>])
           else Blocked))"

text \<open>
  Receiving takes the oldest buffered value, also from a closed channel; a closed and
  drained channel gives \<open>None\<close>, which ends a \<^verbatim>\<open>range\<close> loop.
\<close>

definition chan_recv :: "chan list \<Rightarrow> addr option \<Rightarrow> (bool option \<times> chan list) attempt" where
  "chan_recv h c =
     (case c of
        None \<Rightarrow> Blocked
      | Some a \<Rightarrow>
          (if \<not> a < length h then Blocked
           else
             (case buf (h ! a) of
                v # vs \<Rightarrow> Done (Some v, h[a := (h ! a)\<lparr>buf := vs\<rparr>])
              | [] \<Rightarrow> (if closed (h ! a) then Done (None, h) else Blocked))))"

definition chan_close :: "chan list \<Rightarrow> addr option \<Rightarrow> (chan list) attempt" where
  "chan_close h c =
     (case c of
        None \<Rightarrow> Raised CloseOfNilChannel
      | Some a \<Rightarrow>
          (if \<not> a < length h then Raised CloseOfNilChannel
           else if closed (h ! a) then Raised CloseOfClosedChannel
           else Done (h[a := (h ! a)\<lparr>closed := True\<rparr>])))"

subsection \<open>The construction of a coordinator\<close>

definition newDatabaseWithConfig :: "Config \<Rightarrow> chan list \<Rightarrow> EmbeddedPostgres \<times> chan list" where
  "newDatabaseWithConfig config' h =
     (let versionStrategy = defaultVersionStrategy config';
          cacheLocator' = defaultCacheLocator versionStrategy;
          remoteFetchStrategy' = defaultRemoteFetchStrategy versionStrategy cacheLocator'
      in (case make_chan 1 h of (a, h') \<Rightarrow>
           (\<lparr> config = config',
              cacheLocator = cacheLocator',
              remoteFetchStrategy = remoteFetchStrategy',
              shutdownHook = Some a,
              startupHook = None \<rparr>, h')))"

definition NewDatabase :: "chan list \<Rightarrow> EmbeddedPostgres \<times> chan list" where
  "NewDatabase h = newDatabaseWithConfig DefaultConfig h"

subsection \<open>The state of a running program\<close>

text \<open>
  The child process behind an \<^verbatim>\<open>exec.Cmd\<close>: not started, running, running with
  \<^verbatim>\<open>SIGQUIT\<close> delivered, exited but not yet waited for, and waited for. A child
  runs until it is signalled and exits once it has been sent \<^verbatim>\<open>SIGQUIT\<close>.
\<close>

datatype cmd_state = Unstarted | Running | Quitting | Exited | Reaped

text \<open>
  The goroutine that calls the API runs a list of calls, one after the other; each
  \<^verbatim>\<open>Start\<close> comes with the environment it runs in.
\<close>

datatype call = Start os_env | Stop

text \<open>Where the calling goroutine is: between calls, or at a line of \<^verbatim>\<open>Start\<close> or \<^verbatim>\<open>Stop\<close>.\<close>

datatype caller_pc =
    Idle
  | Start_go os_env string
  | Start_range "addr option"
  | Stop_send
  | Stop_range "addr option"

text \<open>
  Where a goroutine running \<^verbatim>\<open>startPostgres\<close> is. The readiness poller, its context
  and the \<^verbatim>\<open>select\<close> of line 270 are one step, whose outcome the environment gives.
  A \<^verbatim>\<open>range\<close> loop holds the channel its range expression gave when the loop began.
\<close>

datatype sup_pc =
    S_Start
  | S_close_startup_failed error
  | S_panic error
  | S_select
  | S_send_shutdown
  | S_close_startup
  | S_range "addr option"
  | S_Signal "addr option"
  | S_Wait "addr option"
  | S_close_shutdown "addr option"
  | S_return

record supervisor =
  pc :: sup_pc
  cmd :: nat
  binaryExtractLocation :: string
  run_env :: os_env

datatype halt = Panicked panic | LogFatal

text \<open>
  The whole program: the coordinator object behind the pointer \<^verbatim>\<open>ep\<close>, which all
  goroutines share, the channels, the child processes, the supervisor goroutines, the
  calling goroutine with the calls it still has to make and the errors returned by the
  calls it has made, whether the program has died, and the events so far.
\<close>

record world =
  coordinator :: EmbeddedPostgres
  heap :: "chan list"
  cmds :: "cmd_state list"
  sups :: "supervisor list"
  caller :: caller_pc
  program :: "call list"
  returned :: "error option list"
  halted :: "halt option"
  trace :: "event list"

definition boot :: "EmbeddedPostgres \<times> chan list \<Rightarrow> call list \<Rightarrow> world" where
  "boot eh calls =
     \<lparr> coordinator = fst eh, heap = snd eh, cmds = [], sups = [], caller = Idle,
       program = calls, returned = [], halted = None, trace = [] \<rparr>"

subsection \<open>Channel operations of a goroutine\<close>

text \<open>Sends and closes are recorded among the events.\<close>

definition send :: "addr option \<Rightarrow> bool \<Rightarrow> world \<Rightarrow> world attempt" where
  "send c v w =
     (case chan_send (heap w) c v of
        Blocked \<Rightarrow> Blocked
      | Raised p \<Rightarrow> Raised p
      | Done h' \<Rightarrow> Done (w\<lparr>heap := h', trace := trace w @ [EvSend c v]\<rparr>))"

definition close :: "addr option \<Rightarrow> world \<Rightarrow> world attempt" where
  "close c w =
     (case chan_close (heap w) c of
        Blocked \<Rightarrow> Blocked
      | Raised p \<Rightarrow> Raised p
      | Done h' \<Rightarrow> Done (w\<lparr>heap := h', trace := trace w @ [EvClose c]\<rparr>))"

text \<open>
  A goroutine tries an operation and goes on: blocked it does not move, a panic ends the
  program.
\<close>

definition proceed :: "world attempt \<Rightarrow> (world \<Rightarrow> world) \<Rightarrow> world \<Rightarrow> world option" where
  "proceed a f w =
     (case a of
        Blocked \<Rightarrow> None
      | Raised p \<Rightarrow> Some (w\<lparr>halted := Some (Panicked p)\<rparr>)
      | Done w' \<Rightarrow> Some (f w'))"

subsection \<open>Steps of the calling goroutine\<close>

text \<open>
  A \<^verbatim>\<open>for range c { }\<close> loop with an empty body, as in lines 238 and 321: values
  are received and dropped; the call returns nil once the channel is closed and empty.
\<close>

definition drain :: "addr option \<Rightarrow> world \<Rightarrow> world option" where
  "drain c w =
     (case chan_recv (heap w) c of
        Blocked \<Rightarrow> None
      | Raised p \<Rightarrow> Some (w\<lparr>halted := Some (Panicked p)\<rparr>)
      | Done (Some v, h') \<Rightarrow> Some (w\<lparr>heap := h'\<rparr>)
      | Done (None, h') \<Rightarrow> Some (w\<lparr>caller := Idle, returned := returned w @ [None]\<rparr>))"

definition caller_step :: "world \<Rightarrow> world option" where
  "caller_step w =
     (case caller w of
        Idle \<Rightarrow>
          (case program w of
             [] \<Rightarrow> None
           | Start env # rest \<Rightarrow>
               (case Start_prepare (coordinator w) env of
                  (evs, Panic p) \<Rightarrow>
                    Some (w\<lparr>program := rest, trace := trace w @ evs,
                            halted := Some (Panicked p)\<rparr>)
                | (evs, Fatal) \<Rightarrow>
                    Some (w\<lparr>program := rest, trace := trace w @ evs, halted := Some LogFatal\<rparr>)
                | (evs, Value (Inl err)) \<Rightarrow>
                    Some (w\<lparr>program := rest, trace := trace w @ evs,
                            returned := returned w @ [Some err]\<rparr>)
                | (evs, Value (Inr location)) \<Rightarrow>
                    (case make_chan 1 (heap w) of (a, h') \<Rightarrow>
                       Some (w\<lparr>program := rest, trace := trace w @ evs, heap := h',
                               coordinator := (coordinator w)\<lparr>startupHook := Some a\<rparr>,
                               caller := Start_go env location\<rparr>)))
           | Stop # rest \<Rightarrow>
               (if startupHook (coordinator w) = None
                then Some (w\<lparr>program := rest,
                             returned := returned w @ [Some (ErrorString ''postgres not yet started'')]\<rparr>)
                else Some (w\<lparr>program := rest, caller := Stop_send\<rparr>)))
      | Start_go env location \<Rightarrow>
          Some (w\<lparr>sups := sups w @
                     [\<lparr>pc = S_Start, cmd = length (cmds w),
                       binaryExtractLocation = location, run_env = env\<rparr>],
                  cmds := cmds w @ [Unstarted],
                  caller := Start_range (startupHook (coordinator w))\<rparr>)
      | Start_range c \<Rightarrow> drain c w
      | Stop_send \<Rightarrow>
          proceed (send (shutdownHook (coordinator w)) True w)
            (\<lambda>w'. w'\<lparr>caller := Stop_range (shutdownHook (coordinator w))\<rparr>) w
      | Stop_range c \<Rightarrow> drain c w)"

subsection \<open>Steps of a supervisor goroutine and of a child process\<close>

text \<open>The command of lines 244--245.\<close>

definition postgresBinary :: "string \<Rightarrow> string" where
  "postgresBinary location = filepath_Join [location, ''bin/postgres'']"

definition postgres_args :: "EmbeddedPostgres \<Rightarrow> string \<Rightarrow> string list" where
  "postgres_args ep location =
     [''-p'', string_of_nat (unat (port (config ep))), ''-h'', ''localhost'',
      ''-D'', filepath_Join [location, ''data'']]"

definition goto :: "nat \<Rightarrow> sup_pc \<Rightarrow> world \<Rightarrow> world" where
  "goto n l w = w\<lparr>sups := (sups w)[n := (sups w ! n)\<lparr>pc := l\<rparr>]\<rparr>"

text \<open>
  \<^verbatim>\<open>Process.Signal\<close> fails once the process has been waited for, and \<^verbatim>\<open>Wait\<close>
  returns only when the process has exited (at once, with an error, when it was
  already waited for or never started); both errors are only logged.
\<close>

definition Process_Signal :: "nat \<Rightarrow> world \<Rightarrow> world attempt" where
  "Process_Signal i w =
     (case cmds w ! i of
        Unstarted \<Rightarrow> Raised NilDereference
      | Running \<Rightarrow>
          Done (w\<lparr>cmds := (cmds w)[i := Quitting], trace := trace w @ [EvSignal i SIGQUIT]\<rparr>)
      | Quitting \<Rightarrow> Done (w\<lparr>trace := trace w @ [EvSignal i SIGQUIT]\<rparr>)
      | Exited \<Rightarrow> Done (w\<lparr>trace := trace w @ [EvSignal i SIGQUIT]\<rparr>)
      | Reaped \<Rightarrow>
          Done (w\<lparr>trace := trace w @
                  [EvSignal i SIGQUIT, EvLog ''os: process already finished'']\<rparr>))"

definition Wait :: "os_env \<Rightarrow> nat \<Rightarrow> world \<Rightarrow> world attempt" where
  "Wait env i w =
     (case cmds w ! i of
        Unstarted \<Rightarrow> Done (w\<lparr>trace := trace w @ [EvWait i, EvLog ''exec: not started'']\<rparr>)
      | Running \<Rightarrow> Blocked
      | Quitting \<Rightarrow> Blocked
      | Exited \<Rightarrow>
          Done (w\<lparr>cmds := (cmds w)[i := Reaped],
                  trace := trace w @
                    (case Cmd_Wait env of
                       None \<Rightarrow> [EvWait i]
                     | Some err \<Rightarrow> [EvWait i, EvLog (error_Error err)])\<rparr>)
      | Reaped \<Rightarrow>
          Done (w\<lparr>trace := trace w @ [EvWait i, EvLog ''exec: Wait was already called'']\<rparr>))"

definition sup_step :: "nat \<Rightarrow> world \<Rightarrow> world option" where
  "sup_step n w =
     (let s = sups w ! n; ep = coordinator w
      in case pc s of
        S_Start \<Rightarrow>
          (let binary = postgresBinary (binaryExtractLocation s);
               args = postgres_args ep (binaryExtractLocation s)
           in case Cmd_Start (run_env s) binary args of
                Some err \<Rightarrow>
                  Some (goto n (S_close_startup_failed err)
                          (w\<lparr>trace := trace w @ [EvStart (cmd s) binary args]\<rparr>))
              | None \<Rightarrow>
                  Some (goto n S_select
                          (w\<lparr>cmds := (cmds w)[cmd s := Running],
                             trace := trace w @ [EvStart (cmd s) binary args]\<rparr>)))
      | S_close_startup_failed err \<Rightarrow>
          proceed (close (startupHook ep) w) (goto n (S_panic err)) w
      | S_panic err \<Rightarrow> Some (w\<lparr>halted := Some (Panicked (PanicError err))\<rparr>)
      | S_select \<Rightarrow>
          (case readiness (run_env s) of
             Ready \<Rightarrow> Some (goto n S_close_startup w)
           | TimedOut \<Rightarrow> Some (goto n S_send_shutdown w))
      | S_send_shutdown \<Rightarrow>
          proceed (send (shutdownHook ep) True w) (goto n S_close_startup) w
      | S_close_startup \<Rightarrow>
          proceed (close (startupHook ep) w) (goto n (S_range (shutdownHook ep))) w
      | S_range c \<Rightarrow>
          (case chan_recv (heap w) c of
             Blocked \<Rightarrow> None
           | Raised p \<Rightarrow> Some (w\<lparr>halted := Some (Panicked p)\<rparr>)
           | Done (Some shutdown, h') \<Rightarrow>
               (if shutdown then Some (goto n (S_Signal c) (w\<lparr>heap := h'\<rparr>))
                else Some (w\<lparr>heap := h'\<rparr>))
           | Done (None, h') \<Rightarrow> Some (goto n S_return w))
      | S_Signal c \<Rightarrow> proceed (Process_Signal (cmd s) w) (goto n (S_Wait c)) w
      | S_Wait c \<Rightarrow> proceed (Wait (run_env s) (cmd s) w) (goto n (S_close_shutdown c)) w
      | S_close_shutdown c \<Rightarrow> proceed (close (shutdownHook ep) w) (goto n (S_range c)) w
      | S_return \<Rightarrow> None)"

definition cmd_step :: "nat \<Rightarrow> world \<Rightarrow> world option" where
  "cmd_step i w =
     (if i < length (cmds w) \<and> cmds w ! i = Quitting
      then Some (w\<lparr>cmds := (cmds w)[i := Exited]\<rparr>)
      else None)"

subsection \<open>Interleaving\<close>

text \<open>
  A schedule names, step by step, who moves: the caller, a supervisor, or a child
  process. A step of somebody who cannot move is skipped; nothing moves once the
  program has died.
\<close>

datatype tid = Caller | Sup nat | Proc nat

definition step :: "tid \<Rightarrow> world \<Rightarrow> world option" where
  "step t w =
     (if halted w \<noteq> None then None
      else
        (case t of
           Caller \<Rightarrow> caller_step w
         | Sup n \<Rightarrow> (if n < length (sups w) then sup_step n w else None)
         | Proc i \<Rightarrow> cmd_step i w))"

fun exec :: "tid list \<Rightarrow> world \<Rightarrow> world" where
  "exec [] w = w"
| "exec (t # ts) w = (case step t w of None \<Rightarrow> exec ts w | Some w' \<Rightarrow> exec ts w')"

text \<open>How many steps of a schedule are taken rather than skipped.\<close>

fun moves :: "tid list \<Rightarrow> world \<Rightarrow> nat" where
  "moves [] w = 0"
| "moves (t # ts) w = (case step t w of None \<Rightarrow> moves ts w | Some w' \<Rightarrow> Suc (moves ts w'))"

text \<open>The program is at rest when nobody can move.\<close>

definition threads :: "world \<Rightarrow> tid list" where
  "threads w = Caller # map Sup [0..<length (sups w)] @ map Proc [0..<length (cmds w)]"

definition quiescent :: "world \<Rightarrow> bool" where
  "quiescent w = list_all (\<lambda>t. Option.is_none (step t w)) (threads w)"

section \<open>Notions of the specification\<close>

text \<open>
  The cache root and the archive's file name as the specification words them:
  a fixed dot-directory under the user's home directory, or the relative dot-directory
  when the home directory cannot be resolved, and
  \<^verbatim>\<open>embedded-postgres-binaries-<os>-<arch>-<version>.txz\<close>.
\<close>

definition cache_root :: "os_env \<Rightarrow> string" where
  "cache_root env =
     (case os_UserHomeDir env of
        Inl err \<Rightarrow> ''.embedded-postgres-go''
      | Inr userHome \<Rightarrow> filepath_Join [userHome, ''.embedded-postgres-go''])"

definition archive_name :: "string \<Rightarrow> string \<Rightarrow> string \<Rightarrow> string" where
  "archive_name os arch ver =
     ''embedded-postgres-binaries-'' @ os @ ''-'' @ arch @ ''-'' @ ver @ ''.txz''"

text \<open>
  The errors of \<^verbatim>\<open>os.Stat\<close>: a \<^verbatim>\<open>*PathError\<close> of the operation \<^verbatim>\<open>stat\<close> around one
  of the error numbers that \<^verbatim>\<open>stat(2)\<close> documents.
\<close>

definition stat_errnos :: "errno list" where
  "stat_errnos =
     [EACCES, EBADF, EFAULT, EINVAL, EIO, ELOOP, ENAMETOOLONG, ENOENT, ENOMEM, ENOTDIR,
      EOVERFLOW]"

fun stat_error :: "error \<Rightarrow> bool" where
  "stat_error (PathError opn name (Errno e)) = (opn = ''stat'' \<and> e \<in> set stat_errnos)"
| "stat_error err = False"

text \<open>An entry of the container whose name ends in the archive suffix.\<close>

definition is_archive :: "File \<Rightarrow> bool" where
  "is_archive f =
     (case Header f of ZipFileHeader name \<Rightarrow> HasSuffix name ''.txz'' | OtherHeader \<Rightarrow> False)"




section \<open>Environments of example runs\<close>

text \<open>A Linux machine on which the archive is in the cache and everything works.\<close>

definition cached_env :: os_env where
  "cached_env =
     \<lparr> runtime_GOOS = ''linux'', runtime_GOARCH = ''amd64'',
       net_Listen = (\<lambda>network address. None),
       conn_Close = None,
       os_UserHomeDir = Inr ''/home/user'',
       os_Stat = (\<lambda>name. Inr (FileInfo False)),
       http_Get = (\<lambda>url. (None, Some (ErrorString ''no route to host''))),
       zip_Open = (\<lambda>b n. Inr []),
       zip_Close = None,
       os_MkdirAll = (\<lambda>name perm. None),
       os_Create = (\<lambda>name. None),
       file_Close = (\<lambda>name. None),
       ioutil_WriteFile = (\<lambda>name b perm. None),
       os_RemoveAll = (\<lambda>name. None),
       Unarchive = (\<lambda>src dst. None),
       Cmd_Run = (\<lambda>name args. None),
       Cmd_Start = (\<lambda>name args. None),
       Cmd_Wait = Some (ErrorString ''signal: quit''),
       readiness = Ready \<rparr>"

text \<open>The same machine when the server does not become ready in time.\<close>

definition slow_env :: os_env where
  "slow_env = cached_env\<lparr>readiness := TimedOut\<rparr>"

text \<open>
  The same machine with an empty cache; the repository serves a container with a
  manifest and the archive.
\<close>

definition empty_cache_env :: os_env where
  "empty_cache_env =
     cached_env
       \<lparr> os_Stat := (\<lambda>name. Inl (PathError ''stat'' name (Errno ENOENT))),
         http_Get := (\<lambda>url. (Some (Response (Inr ''PK'') None 2), None)),
         zip_Open := (\<lambda>b n. Inr
            [Inr (File (ZipFileHeader ''META-INF/MANIFEST.MF'') (Inr ''Manifest'')),
             Inr (File (ZipFileHeader ''postgres-linux-x86_64.txz'') (Inr ''xz''))]) \<rparr>"

text \<open>The same, but the container holds the manifest only.\<close>

definition no_archive_env :: os_env where
  "no_archive_env =
     empty_cache_env
       \<lparr> zip_Open := (\<lambda>b n. Inr
            [Inr (File (ZipFileHeader ''META-INF/MANIFEST.MF'') (Inr ''Manifest''))]) \<rparr>"

section \<open>The run of a \<^verbatim>\<open>Start\<close> that times out\<close>

text \<open>
  A coordinator as \<^verbatim>\<open>newDatabaseWithConfig\<close> makes it in an empty heap has its
  shutdown channel at address 0, open and empty; \<^verbatim>\<open>Start\<close> puts the startup channel
  at address 1.
\<close>

definition fresh_chan :: chan where
  "fresh_chan = \<lparr>buf = [], cap = 1, closed = False\<rparr>"

text \<open>What the log shows of the result of \<^verbatim>\<open>Wait\<close>.\<close>

definition Wait_log :: "os_env \<Rightarrow> event list" where
  "Wait_log env = (case Cmd_Wait env of None \<Rightarrow> [] | Some err \<Rightarrow> [EvLog (error_Error err)])"

text \<open>
  The states such a run goes through. After line 236 the caller is about to spawn the
  supervisor. From then on the supervisor is at one of eleven points \<open>k\<close>, in program
  order (point 7 is point 6 with the child exited), and the caller either still waits
  in line 238 or has returned nil (\<open>b\<close>).
\<close>

definition prepared :: "EmbeddedPostgres \<Rightarrow> os_env \<Rightarrow> event list \<Rightarrow> string \<Rightarrow> world" where
  "prepared ep env evs location =
     \<lparr> coordinator = ep\<lparr>startupHook := Some 1\<rparr>,
       heap = [fresh_chan, fresh_chan], cmds = [], sups = [],
       caller = Start_go env location, program = [], returned = [], halted = None,
       trace = evs \<rparr>"

definition supervision :: "EmbeddedPostgres \<Rightarrow> os_env \<Rightarrow> string \<Rightarrow> nat \<Rightarrow> event list" where
  "supervision ep env location k =
     (if 1 \<le> k then [EvStart 0 (postgresBinary location) (postgres_args ep location)] else [])
     @ (if 3 \<le> k then [EvSend (Some 0) True] else [])
     @ (if 4 \<le> k then [EvClose (Some 1)] else [])
     @ (if 6 \<le> k then [EvSignal 0 SIGQUIT] else [])
     @ (if 8 \<le> k then EvWait 0 # Wait_log env else [])
     @ (if 9 \<le> k then [EvClose (Some 0)] else [])"

definition stage_pc :: "nat \<Rightarrow> sup_pc" where
  "stage_pc k =
     [S_Start, S_select, S_send_shutdown, S_close_startup, S_range (Some 0), S_Signal (Some 0),
      S_Wait (Some 0), S_Wait (Some 0), S_close_shutdown (Some 0), S_range (Some 0), S_return]
     ! k"

definition stage_cmd :: "nat \<Rightarrow> cmd_state" where
  "stage_cmd k =
     (if k = 0 then Unstarted else if k < 6 then Running else if k = 6 then Quitting
      else if k = 7 then Exited else Reaped)"

definition stage :: "EmbeddedPostgres \<Rightarrow> os_env \<Rightarrow> event list \<Rightarrow> string \<Rightarrow> nat \<Rightarrow> bool \<Rightarrow> world" where
  "stage ep env evs location k b =
     \<lparr> coordinator = ep\<lparr>startupHook := Some 1\<rparr>,
       heap = [\<lparr>buf = (if k = 3 \<or> k = 4 then [True] else []), cap = 1, closed = (9 \<le> k)\<rparr>,
               \<lparr>buf = [], cap = 1, closed = (4 \<le> k)\<rparr>],
       cmds = [stage_cmd k],
       sups = [\<lparr>pc = stage_pc k, cmd = 0, binaryExtractLocation = location, run_env = env\<rparr>],
       caller = (if b then Idle else Start_range (Some 1)),
       program = [],
       returned = (if b then [None] else []),
       halted = None,
       trace = evs @ supervision ep env location k \<rparr>"

text \<open>The state after \<open>m\<close> moves is one of these.\<close>

definition on_timeline :: "EmbeddedPostgres \<Rightarrow> os_env \<Rightarrow> event list \<Rightarrow> string \<Rightarrow> nat \<Rightarrow> world \<Rightarrow> bool" where
  "on_timeline ep env evs location m w =
     ((m = 0 \<and> w = boot (ep, [fresh_chan]) [Start env])
      \<or> (m = 1 \<and> w = prepared ep env evs location)
      \<or> (\<exists>k b. m = 2 + k + (if b then 1 else 0) \<and> k \<le> 10 \<and> (b \<longrightarrow> 4 \<le> k)
            \<and> w = stage ep env evs location k b))"

text \<open>
  A schedule that lets the supervisor and the child finish before the caller looks at
  the startup channel, and one that lets the caller return as early as it can.
\<close>

definition supervisor_first :: "tid list" where
  "supervisor_first =
     [Caller, Caller, Sup 0, Sup 0, Sup 0, Sup 0, Sup 0, Sup 0, Proc 0, Sup 0, Sup 0, Sup 0,
      Caller]"

definition caller_first :: "tid list" where
  "caller_first = [Caller, Caller, Sup 0, Sup 0, Sup 0, Sup 0, Caller]"

section \<open>Calls that do not start the server\<close>

text \<open>
  A call that leaves the coordinator as it was: \<^verbatim>\<open>Stop\<close>, and a \<^verbatim>\<open>Start\<close> that
  returns an error from its preparation. What such a call returns on a coordinator
  that was never started, and the events it causes.
\<close>

fun unsuccessful :: "EmbeddedPostgres \<Rightarrow> call \<Rightarrow> bool" where
  "unsuccessful ep (Start env) =
     (case snd (Start_prepare ep env) of Value (Inl err) \<Rightarrow> True | r \<Rightarrow> False)"
| "unsuccessful ep Stop = True"

fun outcome :: "EmbeddedPostgres \<Rightarrow> call \<Rightarrow> error option" where
  "outcome ep (Start env) =
     (case snd (Start_prepare ep env) of Value (Inl err) \<Rightarrow> Some err | r \<Rightarrow> None)"
| "outcome ep Stop = Some (ErrorString ''postgres not yet started'')"

fun events_of :: "EmbeddedPostgres \<Rightarrow> call \<Rightarrow> event list" where
  "events_of ep (Start env) = fst (Start_prepare ep env)"
| "events_of ep Stop = []"

definition not_started :: "EmbeddedPostgres \<Rightarrow> chan list \<Rightarrow> call list \<Rightarrow> nat \<Rightarrow> world" where
  "not_started ep h calls j =
     \<lparr> coordinator = ep, heap = h, cmds = [], sups = [], caller = Idle,
       program = drop j calls, returned = map (outcome ep) (take j calls), halted = None,
       trace = concat (map (events_of ep) (take j calls)) \<rparr>"

text \<open>A machine on which the port is taken.\<close>

definition busy_port_env :: os_env where
  "busy_port_env =
     cached_env\<lparr>net_Listen := (\<lambda>network address. Some (Errno EADDRINUSE))\<rparr>"

section \<open>Repeated calls\<close>

text \<open>
  A schedule for one cycle of \<^verbatim>\<open>Start\<close> and \<^verbatim>\<open>Stop\<close> when the server becomes ready:
  the caller prepares and spawns the supervisor, the supervisor starts the child and
  closes the startup channel, \<^verbatim>\<open>Start\<close> returns, \<^verbatim>\<open>Stop\<close> sends its request, the
  supervisor stops the child, closes the shutdown channel and returns, and \<^verbatim>\<open>Stop\<close>
  returns. Then the caller's next call: two more steps of a second \<^verbatim>\<open>Stop\<close>, or the
  preparation of a second \<^verbatim>\<open>Start\<close> followed by a second cycle.
\<close>

definition first_cycle :: "tid list" where
  "first_cycle =
     [Caller, Caller, Sup 0, Sup 0, Sup 0, Caller, Caller, Caller, Sup 0, Sup 0, Proc 0, Sup 0,
      Sup 0, Sup 0, Caller]"

definition stop_twice :: "tid list" where
  "stop_twice = first_cycle @ [Caller, Caller]"

definition second_cycle :: "tid list" where
  "second_cycle = [Caller, Sup 1, Sup 1, Sup 1, Sup 1, Caller, Caller, Caller]"

text \<open>The caller is at line 237, about to spawn the supervisor.\<close>

fun about_to_spawn :: "caller_pc \<Rightarrow> bool" where
  "about_to_spawn (Start_go env location) = True"
| "about_to_spawn l = False"

text \<open>A channel field holds a channel that is not closed.\<close>

definition is_open :: "chan list \<Rightarrow> addr option \<Rightarrow> bool" where
  "is_open h c = (case c of None \<Rightarrow> False | Some a \<Rightarrow> a < length h \<and> \<not> closed (h ! a))"

text \<open>
  A coordinator whose \<^verbatim>\<open>Start\<close> got to line 236 once, with only \<^verbatim>\<open>Stop\<close> calls to
  come, and on which no call has returned an error.
\<close>

fun is_Stop :: "call \<Rightarrow> bool" where
  "is_Stop Stop = True"
| "is_Stop (Start env) = False"

definition started :: "world \<Rightarrow> bool" where
  "started w =
     (startupHook (coordinator w) \<noteq> None \<and> list_all is_Stop (program w)
      \<and> list_all (\<lambda>r. r = None) (returned w))"

section \<open>Cleaned paths\<close>

text \<open>
  An element that \<^verbatim>\<open>Clean\<close> keeps as it is: not empty, not \<^verbatim>\<open>.\<close> or \<^verbatim>\<open>..\<close>, and
  without a separator. The elements of a cleaned path: none empty or \<^verbatim>\<open>.\<close>, none with
  a separator, and \<^verbatim>\<open>..\<close> only at the start of a relative path. A cleaned path as
  \<^verbatim>\<open>Clean\<close> writes it.
\<close>

definition normal :: "string \<Rightarrow> bool" where
  "normal e = (e \<noteq> [] \<and> e \<noteq> ''.'' \<and> e \<noteq> ''..'' \<and> CHR ''/'' \<notin> set e)"

definition cleaned :: "bool \<Rightarrow> string list \<Rightarrow> bool" where
  "cleaned rooted out =
     ((\<forall>e \<in> set out. e \<noteq> [] \<and> e \<noteq> ''.'' \<and> CHR ''/'' \<notin> set e)
      \<and> (if rooted then ''..'' \<notin> set out
          else ''..'' \<notin> set (dropWhile (\<lambda>e. e = ''..'') out)))"

definition written :: "bool \<Rightarrow> string list \<Rightarrow> string" where
  "written rooted out =
     (if rooted then CHR ''/'' # strings_Join out ''/'' else strings_Join out ''/'')"

section \<open>Further example runs\<close>

text \<open>
  The example machine when the home directory cannot be resolved, and when
  \<^verbatim>\<open>os.Stat\<close> fails with an error that \<^verbatim>\<open>os.IsExist\<close> accepts.
\<close>

definition homeless_env :: os_env where
  "homeless_env = cached_env\<lparr>os_UserHomeDir := Inl (ErrorString ''$HOME is not defined'')\<rparr>"



section \<open>Properties of the configuration\<close>

text \<open>
  Claim C9. Each of the eight builders returns a configuration in which the named field
  has the given value and the seven other fields are those of the receiver. The
  receiver is passed by value: the builder is a function of it and has nothing else to
  change.
\<close>

theorem builders_change_only_their_field:
  "(Version c v =
       \<lparr>version = v, port = port c, database = database c, username = username c,
        password = password c, runtimePath = runtimePath c, startTimeout = startTimeout c,
        stopTimeout = stopTimeout c\<rparr>)
   \<and> (Port c p =
       \<lparr>version = version c, port = p, database = database c, username = username c,
        password = password c, runtimePath = runtimePath c, startTimeout = startTimeout c,
        stopTimeout = stopTimeout c\<rparr>)
   \<and> (Database c d =
       \<lparr>version = version c, port = port c, database = d, username = username c,
        password = password c, runtimePath = runtimePath c, startTimeout = startTimeout c,
        stopTimeout = stopTimeout c\<rparr>)
   \<and> (Username c u =
       \<lparr>version = version c, port = port c, database = database c, username = u,
        password = password c, runtimePath = runtimePath c, startTimeout = startTimeout c,
        stopTimeout = stopTimeout c\<rparr>)
   \<and> (Password c pw =
       \<lparr>version = version c, port = port c, database = database c,
        username = username c, password = pw, runtimePath = runtimePath c,
        startTimeout = startTimeout c, stopTimeout = stopTimeout c\<rparr>)
   \<and> (RuntimePath c rp =
       \<lparr>version = version c, port = port c, database = database c,
        username = username c, password = password c, runtimePath = rp,
        startTimeout = startTimeout c, stopTimeout = stopTimeout c\<rparr>)
   \<and> (StartTimeout c t =
       \<lparr>version = version c, port = port c, database = database c,
        username = username c, password = password c, runtimePath = runtimePath c,
        startTimeout = t, stopTimeout = stopTimeout c\<rparr>)
   \<and> (StopTimeout c t =
       \<lparr>version = version c, port = port c, database = database c,
        username = username c, password = password c, runtimePath = runtimePath c,
        startTimeout = startTimeout c, stopTimeout = t\<rparr>)"
  by (simp add: add: Version_def Port_def Database_def Username_def Password_def
      RuntimePath_def StartTimeout_def StopTimeout_def)

section \<open>Properties of \<^verbatim>\<open>Clean\<close> and \<^verbatim>\<open>Join\<close>\<close>

lemma split_path_no_slash: "CHR ''/'' \<notin> set n \<Longrightarrow> split_path n = [n]"
  by (induction n) auto

lemma split_path_nonempty: "split_path p \<noteq> []"
  by (cases p) (auto split: list.splits)

lemma split_path_cons:
  "CHR ''/'' \<notin> set e \<Longrightarrow> split_path (e @ CHR ''/'' # q) = e # split_path q"
  by (induction e) (auto)

lemma split_path_snoc:
  "CHR ''/'' \<notin> set n \<Longrightarrow> split_path (p @ CHR ''/'' # n) = split_path p @ [n]"
proof (induction p)
  case Nil
  then show ?case by (simp add: split_path_no_slash)
next
  case (Cons c p)
  then show ?case
    using split_path_nonempty [of p] by (auto split: list.splits)
qed

lemma split_path_elems: "e \<in> set (split_path p) \<Longrightarrow> CHR ''/'' \<notin> set e"
  by (induction p arbitrary: e) (auto split: if_splits list.splits)

lemma split_join:
  "out \<noteq> [] \<Longrightarrow> \<forall>e \<in> set out. CHR ''/'' \<notin> set e \<Longrightarrow> split_path (strings_Join out ''/'') = out"
proof (induction out "''/''" rule: strings_Join.induct)
  case 1
  then show ?case by simp
next
  case (2 e)
  then show ?case by (simp add: split_path_no_slash)
next
  case (3 e v va)
  then show ?case by (simp add: split_path_cons)
qed

lemma all_dots:
  assumes "''..'' \<notin> set (dropWhile (\<lambda>e. e = ''..'') acc)" "acc \<noteq> []" "last acc = ''..''"
  shows "\<forall>x \<in> set acc. x = ''..''"
proof (rule ccontr)
  assume "\<not> (\<forall>x \<in> set acc. x = ''..'')"
  then have ne: "dropWhile (\<lambda>e. e = ''..'') acc \<noteq> []"
    by (simp add: dropWhile_eq_Nil_conv)
  then have "last (dropWhile (\<lambda>e. e = ''..'') acc) = last acc"
    by (metis last_appendR takeWhile_dropWhile_id)
  with ne assms show False
    by (metis last_in_set)
qed

lemma dropWhile_butlast:
  assumes "xs \<noteq> []" "\<not> P (last xs)"
  shows "dropWhile P (butlast xs) = butlast (dropWhile P xs)"
  using assms by (induction xs) auto

lemma cleaned_step:
  assumes "cleaned rooted acc" "CHR ''/'' \<notin> set e"
  shows "cleaned rooted (clean_step rooted acc e)"
proof -
  consider "e = [] \<or> e = ''.''" | "e = ''..''" "acc \<noteq> []" "last acc \<noteq> ''..''"
    | "e = ''..''" "acc = [] \<or> last acc = ''..''" "rooted"
    | "e = ''..''" "acc = [] \<or> last acc = ''..''" "\<not> rooted"
    | "e \<noteq> []" "e \<noteq> ''.''" "e \<noteq> ''..''"
    by blast
  then show ?thesis
  proof cases
    case 1
    with assms show ?thesis by (auto simp: clean_step_def)
  next
    case 2
    have "set (butlast acc) \<subseteq> set acc"
      by (meson in_set_butlastD subsetI)
    moreover have "set (butlast (dropWhile (\<lambda>e. e = ''..'') acc))
        \<subseteq> set (dropWhile (\<lambda>e. e = ''..'') acc)"
      by (meson in_set_butlastD subsetI)
    ultimately show ?thesis
      using 2 assms by (auto simp: clean_step_def cleaned_def dropWhile_butlast)
  next
    case 3
    with assms show ?thesis by (auto simp: clean_step_def)
  next
    case 4
    from assms(1) 4(3) have nd: "''..'' \<notin> set (dropWhile (\<lambda>e. e = ''..'') acc)"
      by (simp add: cleaned_def)
    have dots: "\<forall>x \<in> set acc. x = ''..''"
    proof (cases "acc = []")
      case True
      then show ?thesis by simp
    next
      case False
      with 4(2) have "last acc = ''..''" by simp
      from all_dots [OF nd False this] show ?thesis .
    qed
    then have dw: "dropWhile (\<lambda>e. e = ''..'') (acc @ [''..'']) = []"
      by simp
    have step: "clean_step rooted acc e = acc @ [''..'']"
      using 4 by (auto simp: clean_step_def)
    have "\<forall>x \<in> set (acc @ [''..'']). x \<noteq> [] \<and> x \<noteq> ''.'' \<and> CHR ''/'' \<notin> set x"
      using assms(1) by (simp add: cleaned_def)
    then show ?thesis
      unfolding step cleaned_def using 4(3) dw by simp
  next
    case 5
    then have step: "clean_step rooted acc e = acc @ [e]"
      by (simp add: clean_step_def)
    have el: "\<forall>x \<in> set (acc @ [e]). x \<noteq> [] \<and> x \<noteq> ''.'' \<and> CHR ''/'' \<notin> set x"
      using assms 5 by (simp add: cleaned_def)
    show ?thesis
    proof (cases rooted)
      case True
      with assms(1) 5 el show ?thesis
        unfolding step cleaned_def by simp
    next
      case False
      with assms(1) have nd: "''..'' \<notin> set (dropWhile (\<lambda>e. e = ''..'') acc)"
        by (simp add: cleaned_def)
      have "''..'' \<notin> set (dropWhile (\<lambda>e. e = ''..'') (acc @ [e]))"
      proof (cases "\<forall>x \<in> set acc. x = ''..''")
        case True
        then have "dropWhile (\<lambda>e. e = ''..'') (acc @ [e]) = [e]"
          using 5(3) by simp
        with 5(3) show ?thesis by simp
      next
        case False
        then have "dropWhile (\<lambda>e. e = ''..'') (acc @ [e])
            = dropWhile (\<lambda>e. e = ''..'') acc @ [e]"
          by (simp add: dropWhile_append)
        with nd 5(3) show ?thesis by simp
      qed
      with False el show ?thesis
        unfolding step cleaned_def by simp
    qed
  qed
qed

lemma cleaned_foldl:
  "cleaned rooted acc \<Longrightarrow> \<forall>e \<in> set es. CHR ''/'' \<notin> set e
     \<Longrightarrow> cleaned rooted (foldl (clean_step rooted) acc es)"
  by (induction es arbitrary: acc) (simp_all add: cleaned_step)

lemma foldl_cleaned:
  "cleaned rooted (acc @ out) \<Longrightarrow> foldl (clean_step rooted) acc out = acc @ out"
proof (induction out arbitrary: acc)
  case Nil
  then show ?case by simp
next
  case (Cons e out)
  have e: "e \<noteq> []" "e \<noteq> ''.''"
    using Cons.prems by (auto simp: cleaned_def)
  have "clean_step rooted acc e = acc @ [e]"
  proof (cases "e = ''..''")
    case False
    with e show ?thesis by (simp add: clean_step_def)
  next
    case True
    with Cons.prems have nr: "\<not> rooted"
      by (auto simp: cleaned_def)
    have "\<forall>x \<in> set acc. x = ''..''"
    proof (rule ccontr)
      assume "\<not> (\<forall>x \<in> set acc. x = ''..'')"
      then have "dropWhile (\<lambda>e. e = ''..'') (acc @ e # out)
          = dropWhile (\<lambda>e. e = ''..'') acc @ e # out"
        by (auto simp: dropWhile_append)
      with Cons.prems nr True show False
        by (auto simp: cleaned_def)
    qed
    then have "acc = [] \<or> last acc = ''..''"
      by (cases acc rule: rev_cases) auto
    with True nr show ?thesis by (auto simp: clean_step_def)
  qed
  with Cons.IH [of "acc @ [e]"] Cons.prems show ?case by simp
qed

lemma strings_Join_snoc:
  "out \<noteq> [] \<Longrightarrow> strings_Join (out @ [n]) sep = strings_Join out sep @ sep @ n"
  by (induction out sep rule: strings_Join.induct) auto

lemma strings_Join_hd:
  "out \<noteq> [] \<Longrightarrow> hd out \<noteq> [] \<Longrightarrow> strings_Join out sep \<noteq> [] \<and> hd (strings_Join out sep) = hd (hd out)"
  by (induction out sep rule: strings_Join.induct) auto

lemma Clean_written_snoc:
  assumes "cleaned rooted out" "out \<noteq> []" "normal n"
  shows "filepath_Clean (written rooted out @ ''/'' @ n) = written rooted out @ ''/'' @ n"
proof -
  have el: "\<forall>e \<in> set out. CHR ''/'' \<notin> set e" "hd out \<noteq> []" "CHR ''/'' \<notin> set (hd out)"
    using assms(1,2) by (auto simp: cleaned_def)
  have n: "CHR ''/'' \<notin> set n" "clean_step rooted out n = out @ [n]"
    using assms(3) by (auto simp: normal_def clean_step_def)
  show ?thesis
  proof (cases rooted)
    case True
    have "split_path (written rooted out @ ''/'' @ n) = [] # out @ [n]"
      using True el(1) assms(2) n(1) by (simp add: written_def split_path_snoc split_join)
    moreover have "foldl (clean_step rooted) [] ([] # out @ [n]) = out @ [n]"
      using assms(1) n(2) by (simp add: clean_step_def foldl_cleaned [of rooted "[]", simplified])
    ultimately show ?thesis
      using True assms(2) by (simp add: filepath_Clean_def written_def strings_Join_snoc)
  next
    case False
    have "hd (hd out) \<in> set (hd out)"
      using el(2) by simp
    with el(3) have "hd (hd out) \<noteq> CHR ''/''"
      by metis
    then have hd: "hd (written rooted out @ ''/'' @ n) \<noteq> CHR ''/''"
      using False strings_Join_hd [OF assms(2) el(2), of "''/''"]
      by (simp add: written_def)
    have "split_path (written rooted out @ ''/'' @ n) = out @ [n]"
      using False el(1) assms(2) n(1) by (simp add: written_def split_path_snoc split_join)
    moreover have "foldl (clean_step rooted) [] (out @ [n]) = out @ [n]"
      using assms(1) n(2) by (simp add: foldl_cleaned [of rooted "[]", simplified])
    ultimately show ?thesis
      using False assms(2) hd by (simp add: filepath_Clean_def written_def strings_Join_snoc)
  qed
qed

lemma cleaned_Nil: "cleaned rooted []"
  by (simp add: cleaned_def)

lemma normal_no_slash: "normal n \<Longrightarrow> CHR ''/'' \<notin> set n"
  by (simp add: normal_def)

lemma Clean_snoc_normal:
  assumes "p \<noteq> []" "normal n"
  shows "\<exists>out. cleaned (hd p = CHR ''/'') (out @ [n])
           \<and> filepath_Clean (p @ ''/'' @ n) = written (hd p = CHR ''/'') (out @ [n])"
proof -
  let ?r = "hd p = CHR ''/''"
  let ?out = "foldl (clean_step ?r) [] (split_path p)"
  have c: "cleaned ?r ?out"
    by (rule cleaned_foldl [OF cleaned_Nil]) (simp add: split_path_elems)
  have s: "clean_step ?r ?out n = ?out @ [n]"
    using assms(2) by (auto simp: normal_def clean_step_def)
  from cleaned_step [OF c normal_no_slash [OF assms(2)]] s
  have c': "cleaned ?r (?out @ [n])" by simp
  have "split_path (p @ ''/'' @ n) = split_path p @ [n]"
    using assms(2) by (simp add: split_path_snoc normal_def)
  then have "filepath_Clean (p @ ''/'' @ n) = written ?r (?out @ [n])"
    using assms(1) s by (simp add: filepath_Clean_def written_def)
  with c' show ?thesis by blast
qed

lemma written_nonempty:
  "cleaned rooted out \<Longrightarrow> out \<noteq> [] \<Longrightarrow> written rooted out \<noteq> []"
  using strings_Join_hd [of out "''/''"]
  by (cases out) (auto simp: written_def cleaned_def)

lemma Join_written:
  assumes "cleaned rooted out" "out \<noteq> []" "normal n"
  shows "filepath_Join [written rooted out, n] = written rooted out @ ''/'' @ n"
  using written_nonempty [OF assms(1,2)] Clean_written_snoc [OF assms]
  by (simp add: filepath_Join_def)

lemma Join_normal:
  assumes "normal d"
  shows "\<exists>rooted out. cleaned rooted out \<and> out \<noteq> [] \<and> filepath_Join [h, d] = written rooted out"
proof (cases "h = []")
  case True
  have "cleaned False [d]"
    using assms by (auto simp: cleaned_def normal_def)
  moreover have "hd d \<noteq> CHR ''/''"
    using assms by (cases d) (auto simp: normal_def)
  then have "filepath_Join [h, d] = written False [d]"
    using True assms
    by (auto simp: filepath_Join_def filepath_Clean_def written_def normal_def
        split_path_no_slash clean_step_def Let_def)
  ultimately show ?thesis by blast
next
  case False
  from Clean_snoc_normal [OF False assms] obtain out where
    "cleaned (hd h = CHR ''/'') (out @ [d])"
    "filepath_Clean (h @ ''/'' @ d) = written (hd h = CHR ''/'') (out @ [d])"
    by blast
  moreover have "filepath_Join [h, d] = filepath_Clean (h @ ''/'' @ d)"
    using False by (simp add: filepath_Join_def)
  ultimately show ?thesis by (metis snoc_eq_iff_butlast)
qed

lemma Clean_fixpoint_written:
  assumes "filepath_Clean h = h" "h \<noteq> ''/''" "h \<noteq> ''.''"
  shows "\<exists>out. cleaned (hd h = CHR ''/'') out \<and> out \<noteq> [] \<and> h = written (hd h = CHR ''/'') out"
proof -
  let ?r = "hd h = CHR ''/''"
  let ?out = "foldl (clean_step ?r) [] (split_path h)"
  have c: "cleaned ?r ?out"
    by (rule cleaned_foldl [OF cleaned_Nil]) (simp add: split_path_elems)
  have ne: "h \<noteq> []"
    using assms(1) by (auto simp: filepath_Clean_def)
  have "?out \<noteq> []"
    using assms ne by (auto simp: filepath_Clean_def Let_def split: if_splits)
  moreover from this have "h = written ?r ?out"
    using assms(1) ne by (auto simp: filepath_Clean_def written_def Let_def split: if_splits)
  ultimately show ?thesis using c by blast
qed

lemma Join_clean_home:
  assumes "filepath_Clean h = h" "h \<noteq> ''/''" "h \<noteq> ''.''" "normal d"
  shows "filepath_Join [h, d] = h @ ''/'' @ d"
proof -
  from Clean_fixpoint_written [OF assms(1-3)] obtain out where
    o: "cleaned (hd h = CHR ''/'') out" "out \<noteq> []" "h = written (hd h = CHR ''/'') out"
    by blast
  from Join_written [OF o(1,2) assms(4)] o(3) show ?thesis by simp
qed

lemma normal_dot_directory: "normal ''.embedded-postgres-go''"
  by (simp add: normal_def)

section \<open>Properties of the cache locator\<close>

lemma defaultCacheLocator_cases:
  assumes "versionStrategy env = (os, arch, ver)"
  shows "defaultCacheLocator versionStrategy env =
     (let cacheLocation = filepath_Join [cache_root env, archive_name os arch ver]
      in case os_Stat env cacheLocation of
           Inl err \<Rightarrow>
             if os_IsExist err then Panic NilDereference else Value (cacheLocation, False)
         | Inr info \<Rightarrow> Value (cacheLocation, \<not> IsDir info))"
  using assms
  by (simp add: defaultCacheLocator_def cache_root_def archive_name_def Let_def
      split: sum.splits)

lemma cache_root_written:
  "\<exists>rooted out. cleaned rooted out \<and> out \<noteq> [] \<and> cache_root env = written rooted out"
proof (cases "os_UserHomeDir env")
  case (Inl err)
  have "cleaned False [''.embedded-postgres-go'']"
    by (simp add: cleaned_def)
  moreover have "cache_root env = written False [''.embedded-postgres-go'']"
    using Inl by (simp add: cache_root_def written_def)
  ultimately show ?thesis by blast
next
  case (Inr home)
  with Join_normal [OF normal_dot_directory, of home] show ?thesis
    by (simp add: cache_root_def)
qed

lemma normal_archive_name:
  assumes "CHR ''/'' \<notin> set (os @ arch @ ver)"
  shows "normal (archive_name os arch ver)"
  using assms by (simp add: normal_def archive_name_def)

lemma Join_cache_root:
  assumes "CHR ''/'' \<notin> set (os @ arch @ ver)"
  shows "filepath_Join [cache_root env, archive_name os arch ver]
           = cache_root env @ ''/'' @ archive_name os arch ver"
proof -
  from cache_root_written [of env] obtain rooted out where
    "cleaned rooted out" "out \<noteq> []" "cache_root env = written rooted out"
    by blast
  with Join_written [OF this(1,2) normal_archive_name [OF assms]] show ?thesis
    by simp
qed

text \<open>
  Claim C8, as amended. The locator's path depends on the operating system, the
  architecture, the version and the home directory only: in two environments that
  agree on these, whatever else differs (the file system in particular), it returns the
  same path. When the three tags contain no path separator, the path is the cache
  root, a separator and \<^verbatim>\<open>embedded-postgres-binaries-<os>-<arch>-<version>.txz\<close>,
  character by character. The cache root is \<^verbatim>\<open>.embedded-postgres-go\<close> when the home
  directory cannot be resolved, and \<^verbatim>\<open>Join(home, ".embedded-postgres-go")\<close>
  otherwise, which for a home directory that is a cleaned path other than \<^verbatim>\<open>/\<close> and
  \<^verbatim>\<open>.\<close> is the home directory followed by \<^verbatim>\<open>/.embedded-postgres-go\<close>.
\<close>

theorem cache_path_deterministic:
  assumes "versionStrategy env = (os, arch, ver)"
    and "versionStrategy env' = (os, arch, ver)"
    and "os_UserHomeDir env' = os_UserHomeDir env"
    and "defaultCacheLocator versionStrategy env = Value (path, b)"
    and "defaultCacheLocator versionStrategy env' = Value (path', b')"
  shows "path' = path
     \<and> (CHR ''/'' \<notin> set (os @ arch @ ver) \<longrightarrow>
          path = cache_root env @ ''/'' @ archive_name os arch ver
          \<and> (\<forall>err. os_UserHomeDir env = Inl err \<longrightarrow>
                path = ''.embedded-postgres-go/'' @ archive_name os arch ver)
          \<and> (\<forall>home. os_UserHomeDir env = Inr home \<and> filepath_Clean home = home
                  \<and> home \<noteq> ''/'' \<and> home \<noteq> ''.'' \<longrightarrow>
                path = home @ ''/.embedded-postgres-go/'' @ archive_name os arch ver))"
proof -
  have root: "cache_root env' = cache_root env"
    using assms(3) by (simp add: cache_root_def)
  have p: "path = filepath_Join [cache_root env, archive_name os arch ver]"
    using assms(4) defaultCacheLocator_cases [of versionStrategy env os arch ver, OF assms(1)]
    by (auto simp: Let_def split: sum.splits if_splits)
  have "path' = filepath_Join [cache_root env', archive_name os arch ver]"
    using assms(5) defaultCacheLocator_cases [of versionStrategy env' os arch ver, OF assms(2)]
    by (auto simp: Let_def split: sum.splits if_splits)
  with p root have same: "path' = path"
    by simp
  have form: "path = cache_root env @ ''/'' @ archive_name os arch ver"
    if "CHR ''/'' \<notin> set (os @ arch @ ver)"
    using p Join_cache_root [OF that] by simp
  have unresolved: "path = ''.embedded-postgres-go/'' @ archive_name os arch ver"
    if "CHR ''/'' \<notin> set (os @ arch @ ver)" "os_UserHomeDir env = Inl err" for err
    using form [OF that(1)] that(2) by (simp add: cache_root_def)
  have resolved: "path = home @ ''/.embedded-postgres-go/'' @ archive_name os arch ver"
    if "CHR ''/'' \<notin> set (os @ arch @ ver)" "os_UserHomeDir env = Inr home"
      "filepath_Clean home = home" "home \<noteq> ''/''" "home \<noteq> ''.''" for home
    using form [OF that(1)] that(2) Join_clean_home [OF that(3-5) normal_dot_directory]
    by (simp add: cache_root_def)
  from same form unresolved resolved show ?thesis
    by blast
qed

lemma cached_env_path:
  "filepath_Join [cache_root cached_env, archive_name ''linux'' ''amd64'' ''12.1.0'']
     = ''/home/user/.embedded-postgres-go/embedded-postgres-binaries-linux-amd64-12.1.0.txz''"
  by code_simp

lemma default_locator_cached:
  "defaultCacheLocator (defaultVersionStrategy DefaultConfig) cached_env =
     Value (''/home/user/.embedded-postgres-go/embedded-postgres-binaries-linux-amd64-12.1.0.txz'',
            True)"
  by code_simp

lemma default_locator_empty_cache:
  "defaultCacheLocator (defaultVersionStrategy DefaultConfig) empty_cache_env =
     Value (''/home/user/.embedded-postgres-go/embedded-postgres-binaries-linux-amd64-12.1.0.txz'',
            False)"
  by code_simp

theorem cache_path_deterministic_witness:
  "defaultCacheLocator (defaultVersionStrategy DefaultConfig) cached_env =
     Value (''/home/user/.embedded-postgres-go/embedded-postgres-binaries-linux-amd64-12.1.0.txz'',
            True)
   \<and> defaultCacheLocator (defaultVersionStrategy DefaultConfig) empty_cache_env =
     Value (''/home/user/.embedded-postgres-go/embedded-postgres-binaries-linux-amd64-12.1.0.txz'',
            False)
   \<and> ''/home/user/.embedded-postgres-go/embedded-postgres-binaries-linux-amd64-12.1.0.txz''
     = ''/home/user'' @ ''/.embedded-postgres-go/'' @ archive_name ''linux'' ''amd64'' ''12.1.0''"
proof -
  have vs: "defaultVersionStrategy DefaultConfig cached_env = (''linux'', ''amd64'', ''12.1.0'')"
    by code_simp
  have vs': "defaultVersionStrategy DefaultConfig empty_cache_env = (''linux'', ''amd64'', ''12.1.0'')"
    by code_simp
  have home': "os_UserHomeDir empty_cache_env = os_UserHomeDir cached_env"
    by code_simp
  have plain: "CHR ''/'' \<notin> set (''linux'' @ ''amd64'' @ ''12.1.0'')"
    by simp
  have home: "os_UserHomeDir cached_env = Inr ''/home/user''"
    by (simp add: cached_env_def)
  have clean: "filepath_Clean ''/home/user'' = ''/home/user''"
    by code_simp
  show ?thesis
    using cache_path_deterministic
      [of "defaultVersionStrategy DefaultConfig" cached_env "''linux''" "''amd64''" "''12.1.0''"
        empty_cache_env, OF vs vs' home' default_locator_cached default_locator_empty_cache]
      default_locator_cached default_locator_empty_cache plain home clean
    by simp
qed

text \<open>
  Against claim C8 as it stands. With the version \<^verbatim>\<open>x/../../../y\<close>, which the builder
  \<^verbatim>\<open>Version\<close> accepts like any string, \<^verbatim>\<open>Join\<close> resolves the \<^verbatim>\<open>..\<close> elements and
  the path is \<^verbatim>\<open>/home/y.txz\<close>, outside the cache root. And with the same operating
  system, architecture and version, the path is another one when the home directory
  cannot be resolved.
\<close>

theorem cache_path_escapes_cache_root:
  "defaultCacheLocator (defaultVersionStrategy (Version DefaultConfig ''x/../../../y''))
       cached_env = Value (''/home/y.txz'', True)
   \<and> ''/home/y.txz''
       \<noteq> cache_root cached_env @ ''/'' @ archive_name ''linux'' ''amd64'' ''x/../../../y''
   \<and> defaultVersionStrategy DefaultConfig homeless_env
       = defaultVersionStrategy DefaultConfig cached_env
   \<and> defaultCacheLocator (defaultVersionStrategy DefaultConfig) cached_env =
       Value (''/home/user/.embedded-postgres-go/embedded-postgres-binaries-linux-amd64-12.1.0.txz'',
              True)
   \<and> defaultCacheLocator (defaultVersionStrategy DefaultConfig) homeless_env =
       Value (''.embedded-postgres-go/embedded-postgres-binaries-linux-amd64-12.1.0.txz'', True)"
  by code_simp

text \<open>
  Every error of \<^verbatim>\<open>stat(2)\<close>, as \<^verbatim>\<open>os.Stat\<close> wraps it, is one that \<^verbatim>\<open>os.IsExist\<close>
  rejects.
\<close>

lemma stat_error_not_IsExist: "stat_error err \<Longrightarrow> \<not> os_IsExist err"
  by (cases err rule: stat_error.cases) (auto simp: os_IsExist_def stat_errnos_def)




text \<open>The same for any error that \<^verbatim>\<open>os.IsExist\<close> accepts.\<close>

lemma IsExist_error_panics:
  assumes "versionStrategy env = (os, arch, ver)"
    and "os_Stat env (filepath_Join [cache_root env, archive_name os arch ver]) = Inl err"
    and "os_IsExist err"
  shows "defaultCacheLocator versionStrategy env = Panic NilDereference"
  using assms(2,3) defaultCacheLocator_cases [of versionStrategy env os arch ver, OF assms(1)]
  by (simp add: Let_def)

section \<open>Properties of the remote fetch strategy\<close>

lemma fetch_loop_no_archive:
  "\<forall>f \<in> set files. \<not> is_archive f \<Longrightarrow> fetch_loop cl env (map Inr files) = ([], Value None)"
  by (induction files) (auto simp: is_archive_def split: header.splits)

text \<open>
  Claim C6. The download succeeds and the container is read to its end; no entry has a
  name that ends in \<^verbatim>\<open>.txz\<close>. Then the strategy returns nil, and its only effects are
  the request, the opening of the container and the two closes: no directory is made
  and no file is created or written.
\<close>

theorem fetch_without_archive_is_silent:
  assumes "\<forall>url. http_Get env url = (Some rp, None)"
    and "Body_ReadAll rp = Inr bodyBytes"
    and "Body_Close rp = None"
    and "zip_Open env bodyBytes (ContentLength rp) = Inr (map Inr files)"
    and "zip_Close env = None"
    and "\<forall>f \<in> set files. \<not> is_archive f"
  shows "\<exists>url. defaultRemoteFetchStrategy versionStrategy cl env =
           ([EvHttpGet url, EvZipOpen, EvZipClose, EvBodyClose], Value None)"
  using assms
  by (auto simp: defaultRemoteFetchStrategy_def deferred_Body_Close_def
      deferred_zipFile_Close_def fetch_loop_no_archive split: prod.splits)

theorem fetch_without_archive_is_silent_witness:
  "\<exists>url. defaultRemoteFetchStrategy (defaultVersionStrategy DefaultConfig)
            (defaultCacheLocator (defaultVersionStrategy DefaultConfig)) no_archive_env =
           ([EvHttpGet url, EvZipOpen, EvZipClose, EvBodyClose], Value None)"
proof -
  let ?rp = "Response (Inr ''PK'') None 2"
  let ?files = "[File (ZipFileHeader ''META-INF/MANIFEST.MF'') (Inr ''Manifest'')]"
  have get: "\<forall>url. http_Get no_archive_env url = (Some ?rp, None)"
    by (simp add: no_archive_env_def empty_cache_env_def)
  have opn: "zip_Open no_archive_env ''PK'' (ContentLength ?rp) = Inr (map Inr ?files)"
    by (simp add: no_archive_env_def)
  have cls: "zip_Close no_archive_env = None"
    by (simp add: no_archive_env_def empty_cache_env_def cached_env_def)
  have none: "\<forall>f \<in> set ?files. \<not> is_archive f"
    by (simp add: is_archive_def HasSuffix_def)
  show ?thesis
    using fetch_without_archive_is_silent [OF get _ _ opn cls none] by simp
qed

section \<open>Properties of the preparation in \<^verbatim>\<open>Start\<close>\<close>




section \<open>Properties of a \<^verbatim>\<open>Start\<close> that times out\<close>

lemmas step_defs = step_def caller_step_def sup_step_def cmd_step_def drain_def proceed_def
  send_def close_def chan_send_def chan_recv_def chan_close_def goto_def Process_Signal_def
  Wait_def make_chan_def

lemma caller_stage:
  "step Caller (stage ep env evs location k b) =
     (if \<not> b \<and> 4 \<le> k then Some (stage ep env evs location k True) else None)"
  by (simp add: stage_def step_defs)

lemma proc_stage:
  "step (Proc i) (stage ep env evs location k b) =
     (if i = 0 \<and> k = 6 then Some (stage ep env evs location 7 b) else None)"
  by (auto simp add: stage_def step_defs stage_cmd_def supervision_def stage_pc_def)

lemma sup_other: "n \<noteq> 0 \<Longrightarrow> step (Sup n) (stage ep env evs location k b) = None"
  by (simp add: stage_def step_def)

lemma le_10_cases:
  "(k::nat) \<le> 10 \<Longrightarrow> k = 0 \<or> k = 1 \<or> k = 2 \<or> k = 3 \<or> k = 4 \<or> k = 5 \<or> k = 6 \<or> k = 7 \<or> k = 8
     \<or> k = 9 \<or> k = 10"
  by arith

lemma postgres_args_startupHook:
  "postgres_args (ep\<lparr>startupHook := c\<rparr>) location = postgres_args ep location"
  by (simp add: postgres_args_def)

lemma sup_stage:
  assumes "shutdownHook ep = Some 0"
    and "Cmd_Start env (postgresBinary location) (postgres_args ep location) = None"
    and "readiness env = TimedOut"
    and "k \<le> 10"
  shows "step (Sup 0) (stage ep env evs location k b) =
     (if k = 6 \<or> k = 10 then None else Some (stage ep env evs location (Suc k) b))"
  using le_10_cases [OF assms(4)] assms(1-3)
  by (elim disjE)
    (simp_all add: stage_def step_defs stage_cmd_def supervision_def stage_pc_def
      Wait_log_def Let_def postgres_args_startupHook split: option.splits)

lemma step_boot:
  assumes "Start_prepare ep env = (evs, Value (Inr location))"
  shows "step t (boot (ep, [fresh_chan]) [Start env]) =
     (if t = Caller then Some (prepared ep env evs location) else None)"
  using assms by (cases t) (simp_all add: boot_def prepared_def step_defs fresh_chan_def)

lemma step_prepared:
  "step t (prepared ep env evs location) =
     (if t = Caller then Some (stage ep env evs location 0 False) else None)"
  by (cases t)
    (simp_all add: prepared_def stage_def step_defs fresh_chan_def stage_cmd_def stage_pc_def
      supervision_def)

lemma step_stage:
  assumes "shutdownHook ep = Some 0"
    and "Cmd_Start env (postgresBinary location) (postgres_args ep location) = None"
    and "readiness env = TimedOut"
    and "k \<le> 10"
  shows "step t (stage ep env evs location k b) =
     (case t of
        Caller \<Rightarrow> if \<not> b \<and> 4 \<le> k then Some (stage ep env evs location k True) else None
      | Sup n \<Rightarrow>
          if n = 0 \<and> k \<noteq> 6 \<and> k \<noteq> 10 then Some (stage ep env evs location (Suc k) b) else None
      | Proc i \<Rightarrow> if i = 0 \<and> k = 6 then Some (stage ep env evs location 7 b) else None)"
proof (cases t)
  case Caller
  then show ?thesis by (simp add: caller_stage)
next
  case (Sup n)
  show ?thesis
  proof (cases "n = 0")
    case True
    with Sup sup_stage [OF assms, of evs b] show ?thesis by simp
  next
    case False
    with Sup sup_other [of n ep env evs location k b] show ?thesis by simp
  qed
next
  case (Proc i)
  then show ?thesis by (simp add: proc_stage)
qed

lemma step_timeline:
  assumes "Start_prepare ep env = (evs, Value (Inr location))"
    and "shutdownHook ep = Some 0"
    and "Cmd_Start env (postgresBinary location) (postgres_args ep location) = None"
    and "readiness env = TimedOut"
    and "on_timeline ep env evs location m w"
    and "step t w = Some w'"
  shows "on_timeline ep env evs location (Suc m) w'"
proof -
  consider "m = 0" "w = boot (ep, [fresh_chan]) [Start env]"
    | "m = 1" "w = prepared ep env evs location"
    | k b where "m = 2 + k + (if b then 1 else 0)" "k \<le> 10" "b \<longrightarrow> 4 \<le> k"
        "w = stage ep env evs location k b"
    using assms(5) unfolding on_timeline_def by blast
  then show ?thesis
  proof cases
    case 1
    with assms(6) step_boot [OF assms(1), of t] show ?thesis
      by (auto simp: on_timeline_def split: if_splits)
  next
    case 2
    with assms(6) step_prepared [of t ep env evs location] show ?thesis
      by (auto simp: on_timeline_def split: if_splits)
  next
    case 3
    have "\<exists>k' b'. Suc m = 2 + k' + (if b' then 1 else 0) \<and> k' \<le> 10 \<and> (b' \<longrightarrow> 4 \<le> k')
            \<and> w' = stage ep env evs location k' b'"
    proof (cases t)
      case Caller
      with 3 assms(6) step_stage [OF assms(2-4) 3(2), of t evs b]
      have "\<not> b" "4 \<le> k" "w' = stage ep env evs location k True"
        by (auto split: if_splits)
      with 3 show ?thesis by (intro exI [of _ k] exI [of _ True]) simp
    next
      case (Sup n)
      with 3 assms(6) step_stage [OF assms(2-4) 3(2), of t evs b]
      have "k \<noteq> 10" "w' = stage ep env evs location (Suc k) b"
        by (auto split: if_splits)
      with 3 show ?thesis by (intro exI [of _ "Suc k"] exI [of _ b]) auto
    next
      case (Proc i)
      with 3 assms(6) step_stage [OF assms(2-4) 3(2), of t evs b]
      have "k = 6" "w' = stage ep env evs location 7 b"
        by (auto split: if_splits)
      with 3 show ?thesis by (intro exI [of _ 7] exI [of _ b]) auto
    qed
    then show ?thesis by (simp add: on_timeline_def)
  qed
qed

lemma exec_timeline:
  assumes "Start_prepare ep env = (evs, Value (Inr location))"
    and "shutdownHook ep = Some 0"
    and "Cmd_Start env (postgresBinary location) (postgres_args ep location) = None"
    and "readiness env = TimedOut"
  shows "on_timeline ep env evs location m w
    \<Longrightarrow> on_timeline ep env evs location (m + moves sched w) (exec sched w)"
proof (induction sched arbitrary: m w)
  case Nil
  then show ?case by simp
next
  case (Cons t sched)
  show ?case
  proof (cases "step t w")
    case None
    with Cons show ?thesis by simp
  next
    case (Some w')
    from step_timeline [OF assms Cons.prems Some]
    have "on_timeline ep env evs location (Suc m) w'" .
    from Cons.IH [OF this] Some show ?thesis by simp
  qed
qed

lemma threads_boot: "threads (boot eh calls) = [Caller]"
  by (simp add: threads_def boot_def)

lemma threads_prepared: "threads (prepared ep env evs location) = [Caller]"
  by (simp add: threads_def prepared_def)

lemma threads_stage: "threads (stage ep env evs location k b) = [Caller, Sup 0, Proc 0]"
  by (simp add: threads_def stage_def)

text \<open>
  What holds after any schedule: the number of moves is at most 13, the program is at
  rest exactly after 13 moves, and every state on the way has the properties below.
\<close>

lemma timeline_facts:
  assumes "Start_prepare ep env = (evs, Value (Inr location))"
    and "shutdownHook ep = Some 0"
    and "Cmd_Start env (postgresBinary location) (postgres_args ep location) = None"
    and "readiness env = TimedOut"
    and "on_timeline ep env evs location m w"
  shows "m \<le> 13"
    and "quiescent w \<longleftrightarrow> m = 13"
    and "halted w = None"
    and "returned w = [] \<or> returned w = [None]"
    and "m = 13 \<Longrightarrow> w = stage ep env evs location 10 True"
proof -
  consider "m = 0" "w = boot (ep, [fresh_chan]) [Start env]"
    | "m = 1" "w = prepared ep env evs location"
    | k b where "m = 2 + k + (if b then 1 else 0)" "k \<le> 10" "b \<longrightarrow> 4 \<le> k"
        "w = stage ep env evs location k b"
    using assms(5) unfolding on_timeline_def by blast
  note cases = this
  show "m \<le> 13"
    using assms(5) by (auto simp: on_timeline_def)
  show "quiescent w \<longleftrightarrow> m = 13"
  proof (cases rule: cases)
    case 1
    then show ?thesis
      by (simp add: quiescent_def threads_boot step_boot [OF assms(1)])
  next
    case 2
    then show ?thesis
      by (simp add: quiescent_def threads_prepared step_prepared)
  next
    case 3
    then show ?thesis
      by (auto simp add: quiescent_def threads_stage step_stage [OF assms(2-4) 3(2)])
  qed
  show "halted w = None"
    by (cases rule: cases) (simp_all add: boot_def prepared_def stage_def)
  show "returned w = [] \<or> returned w = [None]"
    by (cases rule: cases) (simp_all add: boot_def prepared_def stage_def)
  show "w = stage ep env evs location 10 True" if "m = 13"
    using that by (cases rule: cases) (auto split: if_splits)
qed

lemma Start_prepare_startupHook:
  "Start_prepare (ep\<lparr>startupHook := c\<rparr>) env = Start_prepare ep env"
  by (simp add: Start_prepare_def Let_def cong: if_cong result.case_cong prod.case_cong)

lemma supervisor_first_run:
  assumes "Start_prepare ep env = (evs, Value (Inr location))"
    and "shutdownHook ep = Some 0"
    and "Cmd_Start env (postgresBinary location) (postgres_args ep location) = None"
    and "readiness env = TimedOut"
  shows "exec supervisor_first (boot (ep, [fresh_chan]) [Start env])
           = stage ep env evs location 10 True"
    and "moves supervisor_first (boot (ep, [fresh_chan]) [Start env]) = 13"
  by (simp_all add: supervisor_first_def step_boot [OF assms(1)] step_prepared
      step_stage [OF assms(2-4)])

lemma caller_first_run:
  assumes "Start_prepare ep env = (evs, Value (Inr location))"
    and "shutdownHook ep = Some 0"
    and "Cmd_Start env (postgresBinary location) (postgres_args ep location) = None"
    and "readiness env = TimedOut"
  shows "exec caller_first (boot (ep, [fresh_chan]) [Start env])
           = stage ep env evs location 4 True"
  by (simp add: caller_first_def step_boot [OF assms(1)] step_prepared
      step_stage [OF assms(2-4)] eval_nat_numeral)

lemma NewDatabase_empty_heap: "NewDatabase [] = (fst (NewDatabase []), [fresh_chan])"
  by (simp add: NewDatabase_def newDatabaseWithConfig_def make_chan_def fresh_chan_def Let_def)

lemma NewDatabase_shutdownHook: "shutdownHook (fst (NewDatabase [])) = Some 0"
  by (simp add: NewDatabase_def newDatabaseWithConfig_def make_chan_def Let_def)

lemma NewDatabase_startupHook: "startupHook (fst (NewDatabase [])) = None"
  by (simp add: NewDatabase_def newDatabaseWithConfig_def make_chan_def Let_def)

lemma cached_env_prepare:
  "Start_prepare (fst (NewDatabase [])) cached_env =
     (fst (Start_prepare (fst (NewDatabase [])) cached_env),
      Value (Inr ''/home/user/.embedded-postgres-go/extracted''))"
proof -
  have "snd (Start_prepare (fst (NewDatabase [])) cached_env) =
      Value (Inr ''/home/user/.embedded-postgres-go/extracted'')"
    by code_simp
  then show ?thesis by (simp add: prod_eq_iff)
qed

lemma slow_env_prepare:
  "Start_prepare (fst (NewDatabase [])) slow_env =
     (fst (Start_prepare (fst (NewDatabase [])) slow_env),
      Value (Inr ''/home/user/.embedded-postgres-go/extracted''))"
proof -
  have "snd (Start_prepare (fst (NewDatabase [])) slow_env) =
      Value (Inr ''/home/user/.embedded-postgres-go/extracted'')"
    by code_simp
  then show ?thesis by (simp add: prod_eq_iff)
qed

lemma example_spawn:
  "Cmd_Start cached_env (postgresBinary l) (postgres_args e l) = None"
  "Cmd_Start slow_env (postgresBinary l) (postgres_args e l) = None"
  by (simp_all add: slow_env_def cached_env_def)

lemma example_race: "readiness slow_env = TimedOut" "readiness cached_env = Ready"
  by (simp_all add: slow_env_def cached_env_def)

text \<open>
  Claim C1, as amended. A freshly made coordinator starts, the preparation succeeds, the
  child is spawned, and the deadline passes before the server is ready. Whatever the
  schedule: the program does not die and \<^verbatim>\<open>Start\<close> returns nothing but nil; the run
  makes at most 13 moves and is at rest exactly when it has made them; and at rest
  \<^verbatim>\<open>Start\<close> has returned nil and the child has exited and been waited for. The child
  is not left running.
\<close>

theorem timed_out_Start_returns_nil:
  assumes "Start_prepare ep env = (evs, Value (Inr location))"
    and "shutdownHook ep = Some 0"
    and "Cmd_Start env (postgresBinary location) (postgres_args ep location) = None"
    and "readiness env = TimedOut"
  shows "halted (exec sched (boot (ep, [fresh_chan]) [Start env])) = None
     \<and> (returned (exec sched (boot (ep, [fresh_chan]) [Start env])) = []
          \<or> returned (exec sched (boot (ep, [fresh_chan]) [Start env])) = [None])
     \<and> moves sched (boot (ep, [fresh_chan]) [Start env]) \<le> 13
     \<and> (quiescent (exec sched (boot (ep, [fresh_chan]) [Start env]))
          \<longleftrightarrow> moves sched (boot (ep, [fresh_chan]) [Start env]) = 13)
     \<and> (quiescent (exec sched (boot (ep, [fresh_chan]) [Start env]))
          \<longrightarrow> returned (exec sched (boot (ep, [fresh_chan]) [Start env])) = [None]
              \<and> cmds (exec sched (boot (ep, [fresh_chan]) [Start env])) = [Reaped])"
proof -
  let ?w0 = "boot (ep, [fresh_chan]) [Start env]"
  have "on_timeline ep env evs location 0 ?w0"
    by (simp add: on_timeline_def)
  from exec_timeline [OF assms this, of sched]
  have tl: "on_timeline ep env evs location (moves sched ?w0) (exec sched ?w0)"
    by simp
  note facts = timeline_facts [OF assms tl]
  have "exec sched ?w0 = stage ep env evs location 10 True" if "quiescent (exec sched ?w0)"
    using that facts(2,5) by simp
  then have "returned (exec sched ?w0) = [None] \<and> cmds (exec sched ?w0) = [Reaped]"
    if "quiescent (exec sched ?w0)"
    using that by (simp add: stage_def stage_cmd_def)
  with facts(1-4) show ?thesis by blast
qed

theorem timed_out_Start_returns_nil_witness:
  "quiescent (exec supervisor_first (boot (NewDatabase []) [Start slow_env]))
   \<and> halted (exec supervisor_first (boot (NewDatabase []) [Start slow_env])) = None
   \<and> returned (exec supervisor_first (boot (NewDatabase []) [Start slow_env])) = [None]
   \<and> cmds (exec supervisor_first (boot (NewDatabase []) [Start slow_env])) = [Reaped]"
  using timed_out_Start_returns_nil
      [OF slow_env_prepare NewDatabase_shutdownHook example_spawn(2) example_race(1),
        of supervisor_first]
    supervisor_first_run(2)
      [OF slow_env_prepare NewDatabase_shutdownHook example_spawn(2) example_race(1)]
    NewDatabase_empty_heap
  by simp

text \<open>
  Against claim C1 as it stands: on the example machine, with the schedule that lets the
  supervisor finish first, \<^verbatim>\<open>Start\<close> returns nil and no child is running, the child
  having been reaped.
\<close>

theorem timed_out_child_is_reaped:
  "returned (exec supervisor_first (boot (NewDatabase []) [Start slow_env])) = [None]
   \<and> quiescent (exec supervisor_first (boot (NewDatabase []) [Start slow_env]))
   \<and> Running \<notin> set (cmds (exec supervisor_first (boot (NewDatabase []) [Start slow_env])))
   \<and> cmds (exec supervisor_first (boot (NewDatabase []) [Start slow_env])) = [Reaped]"
proof -
  have run: "exec supervisor_first (boot (NewDatabase []) [Start slow_env]) =
      stage (fst (NewDatabase [])) slow_env (fst (Start_prepare (fst (NewDatabase [])) slow_env))
        ''/home/user/.embedded-postgres-go/extracted'' 10 True"
    using supervisor_first_run(1)
        [OF slow_env_prepare NewDatabase_shutdownHook example_spawn(2) example_race(1)]
      NewDatabase_empty_heap
    by simp
  show ?thesis
    unfolding run
    by (simp add: quiescent_def threads_stage
        step_stage [OF NewDatabase_shutdownHook example_spawn(2) example_race(1)])
      (simp add: stage_def stage_cmd_def)
qed

text \<open>
  With the schedule that lets the caller go first, the child still runs at the moment
  \<^verbatim>\<open>Start\<close> returns; by the theorem above it does not stay so.
\<close>

lemma Start_can_return_while_child_runs:
  "returned (exec caller_first (boot (NewDatabase []) [Start slow_env])) = [None]
   \<and> cmds (exec caller_first (boot (NewDatabase []) [Start slow_env])) = [Running]"
proof -
  have run: "exec caller_first (boot (NewDatabase []) [Start slow_env]) =
      stage (fst (NewDatabase [])) slow_env (fst (Start_prepare (fst (NewDatabase [])) slow_env))
        ''/home/user/.embedded-postgres-go/extracted'' 4 True"
    using caller_first_run
        [OF slow_env_prepare NewDatabase_shutdownHook example_spawn(2) example_race(1)]
      NewDatabase_empty_heap
    by simp
  show ?thesis
    unfolding run by (simp add: stage_def stage_cmd_def)
qed



section \<open>Properties of \<^verbatim>\<open>Stop\<close> on a coordinator that was not started\<close>

lemma boot_not_started: "boot (ep, h) calls = not_started ep h calls 0"
  by (simp add: boot_def not_started_def)

lemma threads_not_started: "threads (not_started ep h calls j) = [Caller]"
  by (simp add: threads_def not_started_def)

lemma step_not_started:
  assumes "startupHook ep = None"
    and "list_all (unsuccessful ep) calls"
    and "j \<le> length calls"
  shows "step t (not_started ep h calls j) =
     (if t = Caller \<and> j < length calls then Some (not_started ep h calls (Suc j)) else None)"
proof (cases t)
  case Caller
  show ?thesis
  proof (cases "j < length calls")
    case False
    with Caller assms(3) show ?thesis
      by (simp add: not_started_def step_def caller_step_def)
  next
    case True
    then have d: "drop j calls = calls ! j # drop (Suc j) calls"
      by (simp add: Cons_nth_drop_Suc)
    from True have t: "take (Suc j) calls = take j calls @ [calls ! j]"
      by (simp add: take_Suc_conv_app_nth)
    from True assms(2) have u: "unsuccessful ep (calls ! j)"
      by (simp add: list_all_length)
    show ?thesis
    proof (cases "calls ! j")
      case Stop
      with Caller True assms(1) show ?thesis
        by (simp add: not_started_def step_def caller_step_def d t)
    next
      case (Start env)
      with u obtain evs err where "Start_prepare ep env = (evs, Value (Inl err))"
        by (cases "Start_prepare ep env") (auto split: result.splits sum.splits)
      with Start Caller True show ?thesis
        by (simp add: not_started_def step_def caller_step_def d t)
    qed
  qed
next
  case (Sup n)
  then show ?thesis by (simp add: not_started_def step_def)
next
  case (Proc i)
  then show ?thesis by (simp add: not_started_def step_def cmd_step_def)
qed

lemma exec_not_started:
  assumes "startupHook ep = None"
    and "list_all (unsuccessful ep) calls"
  shows "j \<le> length calls \<Longrightarrow>
     exec sched (not_started ep h calls j)
       = not_started ep h calls (min (j + count_list sched Caller) (length calls))"
proof (induction sched arbitrary: j)
  case Nil
  then show ?case by simp
next
  case (Cons t sched)
  show ?case
  proof (cases "t = Caller \<and> j < length calls")
    case True
    with Cons.prems Cons.IH [of "Suc j"] show ?thesis
      by (simp add: step_not_started [OF assms Cons.prems])
  next
    case False
    with Cons.prems Cons.IH [of j] show ?thesis
      by (auto simp add: step_not_started [OF assms Cons.prems] min_def)
  qed
qed

text \<open>
  Claim C7. On a coordinator whose \<^verbatim>\<open>Start\<close> has not succeeded so far (each earlier
  call was a \<^verbatim>\<open>Stop\<close> or a \<^verbatim>\<open>Start\<close> that returned an error), every \<^verbatim>\<open>Stop\<close>
  returns the error \<^verbatim>\<open>postgres not yet started\<close>. Whatever the schedule, after the
  first \<open>j\<close> calls the coordinator and the channels are as they were made (nothing was
  sent on the shutdown channel), there is no child process and no supervisor, and the
  only events are those of the preparations of the \<^verbatim>\<open>Start\<close>s among these calls:
  a \<^verbatim>\<open>Stop\<close> adds none.
\<close>

theorem Stop_before_Start_is_refused:
  assumes "startupHook ep = None"
    and "list_all (unsuccessful ep) calls"
    and "w = exec sched (boot (ep, h) calls)"
    and "j = min (count_list sched Caller) (length calls)"
  shows "coordinator w = ep \<and> heap w = h \<and> cmds w = [] \<and> sups w = [] \<and> halted w = None
     \<and> program w = drop j calls
     \<and> length (returned w) = j
     \<and> (\<forall>i < j. calls ! i = Stop \<longrightarrow>
           returned w ! i = Some (ErrorString ''postgres not yet started''))
     \<and> trace w =
         concat (map (\<lambda>c. case c of Start env \<Rightarrow> fst (Start_prepare ep env) | Stop \<Rightarrow> [])
           (take j calls))"
proof -
  have ev: "events_of ep = (\<lambda>c. case c of Start env \<Rightarrow> fst (Start_prepare ep env) | Stop \<Rightarrow> [])"
    by (rule ext) (simp split: call.splits)
  have w: "w = not_started ep h calls j"
    using exec_not_started [OF assms(1,2), of 0 sched h] assms(3,4)
    by (simp add: boot_not_started)
  have "returned w ! i = Some (ErrorString ''postgres not yet started'')"
    if "i < j" "calls ! i = Stop" for i
    using that assms(4) by (simp add: w not_started_def)
  then show ?thesis
    using assms(4) by (simp add: w not_started_def ev)
qed

lemma busy_port_unsuccessful: "unsuccessful (fst (NewDatabase [])) (Start busy_port_env)"
  by code_simp

theorem Stop_before_Start_is_refused_witness:
  "heap (exec [Caller, Caller, Caller]
       (boot (NewDatabase []) [Stop, Start busy_port_env, Stop])) = [fresh_chan]
   \<and> cmds (exec [Caller, Caller, Caller]
       (boot (NewDatabase []) [Stop, Start busy_port_env, Stop])) = []
   \<and> program (exec [Caller, Caller, Caller]
       (boot (NewDatabase []) [Stop, Start busy_port_env, Stop])) = []
   \<and> returned (exec [Caller, Caller, Caller]
       (boot (NewDatabase []) [Stop, Start busy_port_env, Stop])) ! 0
       = Some (ErrorString ''postgres not yet started'')
   \<and> returned (exec [Caller, Caller, Caller]
       (boot (NewDatabase []) [Stop, Start busy_port_env, Stop])) ! 2
       = Some (ErrorString ''postgres not yet started'')"
proof -
  have u: "list_all (unsuccessful (fst (NewDatabase []))) [Stop, Start busy_port_env, Stop]"
    using busy_port_unsuccessful by simp
  have j: "3 = min (count_list [Caller, Caller, Caller] Caller)
      (length [Stop, Start busy_port_env, Stop])"
    by simp
  have w: "exec [Caller, Caller, Caller] (boot (NewDatabase []) [Stop, Start busy_port_env, Stop])
      = exec [Caller, Caller, Caller]
          (boot (fst (NewDatabase []), [fresh_chan]) [Stop, Start busy_port_env, Stop])"
    using NewDatabase_empty_heap by simp
  show ?thesis
    using Stop_before_Start_is_refused [OF NewDatabase_startupHook u w j]
    by simp
qed

section \<open>Properties of repeated calls\<close>

lemma ready_cycle:
  assumes "Start_prepare ep env = (evs, Value (Inr location))"
    and "shutdownHook ep = Some 0"
    and "Cmd_Start env (postgresBinary location) (postgres_args ep location) = None"
    and "readiness env = Ready"
  shows "exec first_cycle (boot (ep, [fresh_chan]) (Start env # Stop # calls)) =
      \<lparr> coordinator = ep\<lparr>startupHook := Some 1\<rparr>,
        heap = [\<lparr>buf = [], cap = 1, closed = True\<rparr>, \<lparr>buf = [], cap = 1, closed = True\<rparr>],
        cmds = [Reaped],
        sups = [\<lparr>pc = S_return, cmd = 0, binaryExtractLocation = location, run_env = env\<rparr>],
        caller = Idle, program = calls, returned = [None, None], halted = None,
        trace = evs @ [EvStart 0 (postgresBinary location) (postgres_args ep location),
                       EvClose (Some 1), EvSend (Some 0) True, EvSignal 0 SIGQUIT, EvWait 0]
                  @ Wait_log env @ [EvClose (Some 0)] \<rparr>"
  using assms
  by (simp add: first_cycle_def boot_def fresh_chan_def step_defs postgres_args_startupHook
      Wait_log_def Let_def split: option.splits)

lemma exec_append: "exec (xs @ ys) w = exec ys (exec xs w)"
  by (induction xs arbitrary: w) (simp_all split: option.splits)

lemma stop_twice_run:
  assumes "Start_prepare ep env = (evs, Value (Inr location))"
    and "shutdownHook ep = Some 0"
    and "Cmd_Start env (postgresBinary location) (postgres_args ep location) = None"
    and "readiness env = Ready"
  shows "returned (exec stop_twice (boot (ep, [fresh_chan]) [Start env, Stop, Stop]))
           = [None, None]"
    and "halted (exec stop_twice (boot (ep, [fresh_chan]) [Start env, Stop, Stop]))
           = Some (Panicked SendOnClosedChannel)"
proof -
  note cycle = ready_cycle [OF assms, of "[Stop]"]
  let ?w = "exec stop_twice (boot (ep, [fresh_chan]) [Start env, Stop, Stop])"
  show "returned ?w = [None, None]"
    unfolding stop_twice_def exec_append cycle
    using assms(2) by (simp add: step_defs)
  show "halted ?w = Some (Panicked SendOnClosedChannel)"
    unfolding stop_twice_def exec_append cycle
    using assms(2) by (simp add: step_defs)
qed

lemma restart_run:
  assumes "Start_prepare ep env = (evs, Value (Inr location))"
    and "shutdownHook ep = Some 0"
    and "Cmd_Start env (postgresBinary location) (postgres_args ep location) = None"
    and "readiness env = Ready"
  shows "exec (first_cycle @ [Caller])
           (boot (ep, [fresh_chan]) [Start env, Stop, Start env, Stop]) =
      \<lparr> coordinator = ep\<lparr>startupHook := Some 2\<rparr>,
        heap = [\<lparr>buf = [], cap = 1, closed = True\<rparr>, \<lparr>buf = [], cap = 1, closed = True\<rparr>,
                fresh_chan],
        cmds = [Reaped],
        sups = [\<lparr>pc = S_return, cmd = 0, binaryExtractLocation = location, run_env = env\<rparr>],
        caller = Start_go env location, program = [Stop], returned = [None, None],
        halted = None,
        trace = evs @ [EvStart 0 (postgresBinary location) (postgres_args ep location),
                       EvClose (Some 1), EvSend (Some 0) True, EvSignal 0 SIGQUIT, EvWait 0]
                  @ Wait_log env @ [EvClose (Some 0)] @ evs \<rparr>"
proof -
  note cycle = ready_cycle [OF assms, of "[Start env, Stop]"]
  show ?thesis
    unfolding exec_append cycle
    using assms(1)
    by (simp add: step_defs Start_prepare_startupHook fresh_chan_def)
qed

lemma second_cycle_run:
  assumes "Start_prepare ep env = (evs, Value (Inr location))"
    and "shutdownHook ep = Some 0"
    and "Cmd_Start env (postgresBinary location) (postgres_args ep location) = None"
    and "readiness env = Ready"
  shows "returned (exec (first_cycle @ Caller # second_cycle)
            (boot (ep, [fresh_chan]) [Start env, Stop, Start env, Stop])) = [None, None, None]"
    and "halted (exec (first_cycle @ Caller # second_cycle)
            (boot (ep, [fresh_chan]) [Start env, Stop, Start env, Stop]))
          = Some (Panicked SendOnClosedChannel)"
    and "cmds (exec (first_cycle @ Caller # second_cycle)
            (boot (ep, [fresh_chan]) [Start env, Stop, Start env, Stop])) = [Reaped, Running]"
    and "map pc (sups (exec (first_cycle @ Caller # second_cycle)
            (boot (ep, [fresh_chan]) [Start env, Stop, Start env, Stop])))
          = [S_return, S_return]"
proof -
  have sched: "first_cycle @ Caller # second_cycle = (first_cycle @ [Caller]) @ second_cycle"
    by simp
  note run = restart_run [OF assms]
  let ?w = "exec (first_cycle @ Caller # second_cycle)
            (boot (ep, [fresh_chan]) [Start env, Stop, Start env, Stop])"
  show "returned ?w = [None, None, None]"
    unfolding sched exec_append [of "first_cycle @ [Caller]"] run
    using assms(2-4)
    by (simp add: second_cycle_def step_defs postgres_args_startupHook fresh_chan_def Let_def)
  show "halted ?w = Some (Panicked SendOnClosedChannel)"
    unfolding sched exec_append [of "first_cycle @ [Caller]"] run
    using assms(2-4)
    by (simp add: second_cycle_def step_defs postgres_args_startupHook fresh_chan_def Let_def)
  show "cmds ?w = [Reaped, Running]"
    unfolding sched exec_append [of "first_cycle @ [Caller]"] run
    using assms(2-4)
    by (simp add: second_cycle_def step_defs postgres_args_startupHook fresh_chan_def Let_def)
  show "map pc (sups ?w) = [S_return, S_return]"
    unfolding sched exec_append [of "first_cycle @ [Caller]"] run
    using assms(2-4)
    by (simp add: second_cycle_def step_defs postgres_args_startupHook fresh_chan_def Let_def)
qed

text \<open>
  Claim C3 fails on the code. On the example machine \<^verbatim>\<open>Start\<close> and a first
  \<^verbatim>\<open>Stop\<close> return nil; the second \<^verbatim>\<open>Stop\<close> finds \<^verbatim>\<open>startupHook\<close> still set,
  sends on the shutdown channel, which the supervisor has closed, and the program
  panics.
\<close>

theorem second_Stop_panics:
  "returned (exec first_cycle (boot (NewDatabase []) [Start cached_env, Stop, Stop]))
     = [None, None]
   \<and> halted (exec first_cycle (boot (NewDatabase []) [Start cached_env, Stop, Stop])) = None
   \<and> returned (exec stop_twice (boot (NewDatabase []) [Start cached_env, Stop, Stop]))
     = [None, None]
   \<and> halted (exec stop_twice (boot (NewDatabase []) [Start cached_env, Stop, Stop]))
     = Some (Panicked SendOnClosedChannel)"
  using ready_cycle
      [OF cached_env_prepare NewDatabase_shutdownHook example_spawn(1) example_race(2),
        of "[Stop]"]
    stop_twice_run
      [OF cached_env_prepare NewDatabase_shutdownHook example_spawn(1) example_race(2)]
    NewDatabase_empty_heap
  by simp

lemma goto_frame [simp]:
  "coordinator (goto n l w) = coordinator w" "program (goto n l w) = program w"
  "returned (goto n l w) = returned w"
  by (simp_all add: goto_def)

lemma proceed_started:
  assumes "proceed a f w = Some w'" "started w"
    and "\<And>v. a = Done v \<Longrightarrow> started (f v)"
  shows "started w'"
  using assms by (cases a) (auto simp: proceed_def started_def)

lemma send_frame:
  "send c v w = Done w' \<Longrightarrow>
     coordinator w' = coordinator w \<and> program w' = program w \<and> returned w' = returned w"
  by (auto simp: send_def split: attempt.splits)

lemma close_frame:
  "close c w = Done w' \<Longrightarrow>
     coordinator w' = coordinator w \<and> program w' = program w \<and> returned w' = returned w"
  by (auto simp: close_def split: attempt.splits)

lemma Signal_frame:
  "Process_Signal i w = Done w' \<Longrightarrow>
     coordinator w' = coordinator w \<and> program w' = program w \<and> returned w' = returned w"
  by (auto simp: Process_Signal_def split: cmd_state.splits)

lemma Wait_frame:
  "Wait env i w = Done w' \<Longrightarrow>
     coordinator w' = coordinator w \<and> program w' = program w \<and> returned w' = returned w"
  by (auto simp: Wait_def split: cmd_state.splits)

lemma drain_started: "drain c w = Some w' \<Longrightarrow> started w \<Longrightarrow> started w'"
  by (auto simp: drain_def started_def split: attempt.splits prod.splits option.splits)

lemma caller_step_started: "caller_step w = Some w' \<Longrightarrow> started w \<Longrightarrow> started w'"
proof (cases "caller w")
  case Idle
  assume "caller_step w = Some w'" "started w"
  with Idle show ?thesis
    by (auto simp: caller_step_def started_def split: list.splits call.splits)
next
  case (Start_go env location)
  assume "caller_step w = Some w'" "started w"
  with Start_go show ?thesis
    by (auto simp: caller_step_def started_def)
next
  case (Start_range c)
  assume "caller_step w = Some w'" "started w"
  with Start_range show ?thesis
    by (auto simp: caller_step_def dest: drain_started)
next
  case Stop_send
  assume a: "caller_step w = Some w'" "started w"
  with Stop_send have "proceed (send (shutdownHook (coordinator w)) True w)
            (\<lambda>w'. w'\<lparr>caller := Stop_range (shutdownHook (coordinator w))\<rparr>) w = Some w'"
    by (simp add: caller_step_def)
  then show ?thesis
  proof (rule proceed_started)
    show "started w" by fact
  next
    fix v
    assume "send (shutdownHook (coordinator w)) True w = Done v"
    from send_frame [OF this] a(2)
    show "started (v\<lparr>caller := Stop_range (shutdownHook (coordinator w))\<rparr>)"
      by (simp add: started_def)
  qed
next
  case (Stop_range c)
  assume "caller_step w = Some w'" "started w"
  with Stop_range show ?thesis
    by (auto simp: caller_step_def dest: drain_started)
qed

lemma sup_step_frame:
  "sup_step n w = Some w' \<Longrightarrow>
     coordinator w' = coordinator w \<and> program w' = program w \<and> returned w' = returned w"
  by (cases "pc (sups w ! n)")
    (auto simp: sup_step_def Let_def proceed_def
      split: option.splits attempt.splits race.splits prod.splits if_splits
      dest: send_frame close_frame Signal_frame Wait_frame)

lemma step_started: "step t w = Some w' \<Longrightarrow> started w \<Longrightarrow> started w'"
  by (cases t)
    (auto simp: step_def cmd_step_def started_def split: if_splits
      dest: caller_step_started [unfolded started_def] sup_step_frame)

lemma exec_started: "started w \<Longrightarrow> started (exec sched w)"
  by (induction sched arbitrary: w) (auto split: option.splits dest: step_started)

text \<open>
  More generally, in no schedule does a \<^verbatim>\<open>Stop\<close> that follows a \<^verbatim>\<open>Start\<close> whose
  preparation succeeded return an error: \<^verbatim>\<open>startupHook\<close> is never set back to nil.
\<close>

lemma Stop_after_Start_is_never_refused:
  assumes "Start_prepare ep env = (evs, Value (Inr location))"
  shows "list_all (\<lambda>r. r = None)
           (returned (exec sched (boot (ep, h) (Start env # replicate n Stop))))"
proof -
  let ?w0 = "boot (ep, h) (Start env # replicate n Stop)"
  have first: "step t ?w0 = None \<or> (\<exists>w'. step t ?w0 = Some w' \<and> started w')" for t
    using assms
    by (cases t)
      (simp_all add: boot_def step_def caller_step_def cmd_step_def make_chan_def started_def
        list_all_length)
  have "exec sched ?w0 = ?w0 \<or> started (exec sched ?w0)"
  proof (induction sched)
    case Nil
    then show ?case by simp
  next
    case (Cons t sched)
    from first [of t] show ?case
    proof
      assume "step t ?w0 = None"
      with Cons show ?thesis by simp
    next
      assume "\<exists>w'. step t ?w0 = Some w' \<and> started w'"
      then obtain w' where "step t ?w0 = Some w'" "started w'" by blast
      then show ?thesis by (simp add: exec_started)
    qed
  qed
  then show ?thesis
    by (auto simp: started_def boot_def)
qed

text \<open>
  Claim C2 fails on the code. On the example machine, after one cycle of \<^verbatim>\<open>Start\<close>
  and \<^verbatim>\<open>Stop\<close>, the second \<^verbatim>\<open>Start\<close> stands at line 237, about to spawn the
  supervisor: the startup channel is a new, open channel, but the shutdown channel is
  the one made by \<^verbatim>\<open>newDatabaseWithConfig\<close>, and it is closed. The second supervisor
  then finds its \<^verbatim>\<open>range\<close> loop over at once and returns while its child runs on,
  and the next \<^verbatim>\<open>Stop\<close> panics.
\<close>

theorem second_Start_keeps_closed_shutdown_channel:
  "about_to_spawn (caller (exec (first_cycle @ [Caller])
       (boot (NewDatabase []) [Start cached_env, Stop, Start cached_env, Stop])))
   \<and> shutdownHook (coordinator (exec (first_cycle @ [Caller])
       (boot (NewDatabase []) [Start cached_env, Stop, Start cached_env, Stop])))
     = shutdownHook (fst (NewDatabase []))
   \<and> \<not> is_open
       (heap (exec (first_cycle @ [Caller])
          (boot (NewDatabase []) [Start cached_env, Stop, Start cached_env, Stop])))
       (shutdownHook (coordinator (exec (first_cycle @ [Caller])
          (boot (NewDatabase []) [Start cached_env, Stop, Start cached_env, Stop]))))
   \<and> is_open
       (heap (exec (first_cycle @ [Caller])
          (boot (NewDatabase []) [Start cached_env, Stop, Start cached_env, Stop])))
       (startupHook (coordinator (exec (first_cycle @ [Caller])
          (boot (NewDatabase []) [Start cached_env, Stop, Start cached_env, Stop]))))
   \<and> cmds (exec (first_cycle @ Caller # second_cycle)
       (boot (NewDatabase []) [Start cached_env, Stop, Start cached_env, Stop]))
     = [Reaped, Running]
   \<and> map pc (sups (exec (first_cycle @ Caller # second_cycle)
       (boot (NewDatabase []) [Start cached_env, Stop, Start cached_env, Stop])))
     = [S_return, S_return]
   \<and> halted (exec (first_cycle @ Caller # second_cycle)
       (boot (NewDatabase []) [Start cached_env, Stop, Start cached_env, Stop]))
     = Some (Panicked SendOnClosedChannel)"
  using restart_run
      [OF cached_env_prepare NewDatabase_shutdownHook example_spawn(1) example_race(2)]
    second_cycle_run
      [OF cached_env_prepare NewDatabase_shutdownHook example_spawn(1) example_race(2)]
    NewDatabase_empty_heap NewDatabase_shutdownHook
  by (simp add: is_open_def fresh_chan_def)



end
